theory Spec2Isabelle
  imports Complex_Main
begin

section \<open>Bubble shooter: the grid simulation of BubbleShooterCanvas.tsx\<close>

text \<open>
  A shallow embedding of the game state and of the functions of
  \<^verbatim>\<open>src/components/BubbleShooterCanvas.tsx\<close> that keep the hex grid: the coordinate
  transforms, the neighbour function, flood matching, removal of disconnected bubbles,
  snapping, the shooter queue and the descent part of the frame loop.

  Conventions of the embedding.
  \<^item> JavaScript numbers that hold pixel positions, times and random draws are
    \<^typ>\<open>real\<close>: IEEE rounding is idealised away. Row and column indices, scores and
    counters are \<^typ>\<open>int\<close>.
  \<^item> The React refs (\<^verbatim>\<open>gridRef\<close>, \<^verbatim>\<open>movingRef\<close>, ...) are the fields of one record
    \<open>Game\<close> that every function takes and returns.
  \<^item> \<^verbatim>\<open>Math.random()\<close>, \<^verbatim>\<open>randId()\<close> and \<^verbatim>\<open>Date.now()\<close> are inputs: the caller of a
    modelled function supplies what they returned.
  \<^item> The host callbacks \<^verbatim>\<open>onShot\<close>, \<^verbatim>\<open>onCombo\<close> and the audio calls append to the
    log \<open>emitted\<close>.
  \<^item> The canvas height \<^verbatim>\<open>h\<close> is read by \<^verbatim>\<open>shoot\<close> only; the other functions take it
    in the source without using it, and the model leaves it out there.
\<close>

subsection \<open>Data model\<close>

datatype BubbleColor = Red | Blue | Green | Yellow | Purple | Orange | Cyan | Pink | Gray

datatype BubbleKind = Normal | Rainbow | Bomb | Freeze | Aim

text \<open>The fields of \<^verbatim>\<open>Bubble\<close> (\<^verbatim>\<open>id, row, col, x, y, color, kind, stationary\<close>), prefixed.\<close>

record Bubble =
  b_id :: string
  b_row :: int
  b_col :: int
  b_x :: real
  b_y :: real
  b_color :: BubbleColor
  b_kind :: BubbleKind
  b_stationary :: bool

record PowerupState =
  freezeUntil :: real
  aimBoostUntil :: real

datatype Event = ShotFired | ComboAchieved | PlayPop real | PlayCombo int

type_synonym Grid = "Bubble option list list"

record Game =
  gridRef :: Grid
  movingRef :: "Bubble option"
  dirRef :: "(real \<times> real) option"
  scoreRef :: int
  comboChainRef :: int
  descentOffsetRef :: real
  powerRef :: PowerupState
  nextQueueRef :: "BubbleKind list"
  emitted :: "Event list"

text \<open>The two fields of \<^verbatim>\<open>LevelConfig\<close> that the modelled functions read.\<close>

record LevelConfig =
  descentSpeed :: real
  rainbowEnabled :: bool

subsection \<open>Constants and arithmetic helpers\<close>

definition BUBBLE_RADIUS :: real where
  "BUBBLE_RADIUS = 16"

definition BUBBLE_DIAMETER :: real where
  "BUBBLE_DIAMETER = BUBBLE_RADIUS * 2"

definition ROW_V_SPACING :: real where
  "ROW_V_SPACING = sqrt 3 * BUBBLE_RADIUS * 0.98"

definition COL_H_SPACING :: real where
  "COL_H_SPACING = BUBBLE_DIAMETER * 0.98"

definition MAX_COLS :: int where
  "MAX_COLS = 12"

definition MAX_ROWS :: nat where
  "MAX_ROWS = 18"

text \<open>\<^verbatim>\<open>a % b\<close> of JavaScript on integers: the remainder takes the sign of \<open>a\<close>.\<close>

definition jsRem :: "int \<Rightarrow> int \<Rightarrow> int" where
  "jsRem a b = sgn a * (\<bar>a\<bar> mod \<bar>b\<bar>)"

text \<open>\<^verbatim>\<open>Math.round\<close>: the nearest integer, a tie going up.\<close>

definition Math_round :: "real \<Rightarrow> int" where
  "Math_round v = \<lfloor>v + 1 / 2\<rfloor>"

subsection \<open>Coordinate transforms\<close>

text \<open>\<^verbatim>\<open>computeGridSize(w, h).cols\<close>; the row count is the constant \<open>MAX_ROWS\<close>.\<close>

definition computeGridSize :: "real \<Rightarrow> int" where
  "computeGridSize w = min MAX_COLS (max 8 \<lfloor>w / COL_H_SPACING\<rfloor>)"

definition gridToXY :: "Game \<Rightarrow> int \<Rightarrow> int \<Rightarrow> real \<Rightarrow> real \<times> real" where
  "gridToXY s r c w =
     (let rowOffset = (if jsRem r 2 = 0 then 0 else COL_H_SPACING / 2);
          x = rowOffset + BUBBLE_RADIUS + of_int c * COL_H_SPACING;
          y = BUBBLE_RADIUS + of_int r * ROW_V_SPACING - descentOffsetRef s
      in (x, y))"

definition xyToGridGuess :: "Game \<Rightarrow> real \<Rightarrow> real \<Rightarrow> real \<Rightarrow> int \<times> int" where
  "xyToGridGuess s x y w =
     (let r = Math_round ((y + descentOffsetRef s - BUBBLE_RADIUS) / ROW_V_SPACING);
          rowOffset = (if jsRem r 2 = 0 then 0 else COL_H_SPACING / 2);
          c = Math_round ((x - rowOffset - BUBBLE_RADIUS) / COL_H_SPACING)
      in (r, c))"

subsection \<open>Grid access\<close>

text \<open>
  \<^verbatim>\<open>grid[r][c]\<close>. Every read and write of the modelled functions is guarded by the
  bounds of a rectangular grid (\<open>rect\<close> below); outside the bounds the read is
  \<^verbatim>\<open>undefined\<close> in JavaScript, which the callers treat like \<^verbatim>\<open>null\<close>. Only
  \<^verbatim>\<open>placeBubbleAt\<close> can leave the bounds, on an empty grid or on a row shorter than the
  column count, so the statements about snapping assume a non-empty rectangular grid,
  which is what \<^verbatim>\<open>initGrid\<close> builds and \<^verbatim>\<open>addNewDescendingRow\<close> keeps.
\<close>

definition cellAt :: "Grid \<Rightarrow> int \<Rightarrow> int \<Rightarrow> Bubble option" where
  "cellAt g r c =
     (if 0 \<le> r \<and> r < int (length g) \<and> 0 \<le> c \<and> c < int (length (g ! nat r))
      then g ! nat r ! nat c else None)"

definition setCell :: "Grid \<Rightarrow> int \<Rightarrow> int \<Rightarrow> Bubble option \<Rightarrow> Grid" where
  "setCell g r c v =
     (if 0 \<le> r \<and> r < int (length g) \<and> 0 \<le> c \<and> c < int (length (g ! nat r))
      then g[nat r := (g ! nat r)[nat c := v]] else g)"

text \<open>A grid as \<^verbatim>\<open>initGrid\<close> builds it: every row has \<open>computeGridSize w\<close> slots.\<close>

definition rect :: "Grid \<Rightarrow> real \<Rightarrow> bool" where
  "rect g w = list_all (\<lambda>row. int (length row) = computeGridSize w) g"

subsection \<open>Neighbours\<close>

definition neighbors :: "Grid \<Rightarrow> int \<Rightarrow> int \<Rightarrow> real \<Rightarrow> (int \<times> int \<times> Bubble option) list" where
  "neighbors grid r c w =
     (let cols = computeGridSize w;
          odd = (jsRem r 2 = 1);
          candidates =
            [(r, c - 1), (r, c + 1),
             (r - 1, c + (if odd then 0 else - 1)), (r - 1, c + (if odd then 1 else 0)),
             (r + 1, c + (if odd then 0 else - 1)), (r + 1, c + (if odd then 1 else 0))]
      in map (\<lambda>(rr, cc). (rr, cc, cellAt grid rr cc))
           (filter (\<lambda>(rr, cc).
                \<not> (rr < 0 \<or> rr \<ge> int (length grid)) \<and>
                \<not> (cc < 0 \<or> cc \<ge> cols - (if jsRem rr 2 = 1 then 1 else 0)))
              candidates))"

text \<open>The cells that the neighbour function can return: the bound of every traversal.\<close>

definition cellsOf :: "Grid \<Rightarrow> real \<Rightarrow> (int \<times> int) set" where
  "cellsOf g w = {0 ..< int (length g)} \<times> {0 ..< computeGridSize w}"

lemma finite_cellsOf: "finite (cellsOf g w)"
  by (simp add: cellsOf_def)

lemma in_map_filter:
  "(rr, cc, nb) \<in> set (map (\<lambda>(rr, cc). (rr, cc, f rr cc)) (filter P xs))
    \<Longrightarrow> P (rr, cc) \<and> (rr, cc) \<in> set xs \<and> nb = f rr cc"
  by auto

lemma neighbors_in_cellsOf:
  "(rr, cc, nb) \<in> set (neighbors g r c w) \<Longrightarrow> (rr, cc) \<in> cellsOf g w"
  unfolding neighbors_def Let_def
  by (drule in_map_filter) (auto simp: cellsOf_def split: if_splits)

lemma neighbors_cell: "(rr, cc, nb) \<in> set (neighbors g r c w) \<Longrightarrow> nb = cellAt g rr cc"
  unfolding neighbors_def Let_def
  by (drule in_map_filter) simp

lemma length_neighbors: "length (neighbors g r c w) \<le> 6"
proof -
  have "length (filter P [a, b, c', d, e, f]) \<le> 6" for P :: "int \<times> int \<Rightarrow> bool" and a b c' d e f
    using length_filter_le [of P "[a, b, c', d, e, f]"] by simp
  then show ?thesis
    by (simp only: neighbors_def Let_def length_map)
qed

subsection \<open>Flood matching\<close>

text \<open>
  The \<^verbatim>\<open>while (stack.length)\<close> loop of \<^verbatim>\<open>floodMatch\<close>. The JavaScript stack is an array
  popped and pushed at its end; here the head of the list is the top, so a run of
  pushes is prepended reversed.
\<close>

definition matches :: "BubbleColor \<Rightarrow> Bubble \<Rightarrow> bool" where
  "matches targetColor b = (b_color b = targetColor \<or> b_kind b = Rainbow)"

definition floodPushes :: "Grid \<Rightarrow> BubbleColor \<Rightarrow> real \<Rightarrow> int \<times> int \<Rightarrow> (int \<times> int) list" where
  "floodPushes g targetColor w cur =
     map (\<lambda>(rr, cc, nb). (rr, cc))
       (filter (\<lambda>(rr, cc, nb). case nb of None \<Rightarrow> False | Some b \<Rightarrow> matches targetColor b)
          (neighbors g (fst cur) (snd cur) w))"

lemma floodPushes_in_cellsOf: "set (floodPushes g t w cur) \<subseteq> cellsOf g w"
  by (auto simp: floodPushes_def dest: neighbors_in_cellsOf)

function floodLoop ::
  "Grid \<Rightarrow> BubbleColor \<Rightarrow> real \<Rightarrow> (int \<times> int) set \<Rightarrow> (int \<times> int) list \<Rightarrow> (int \<times> int) list
    \<Rightarrow> (int \<times> int) list" where
  "floodLoop g t w visited res [] = res"
| "floodLoop g t w visited res (cur # stack) =
     (if cur \<in> visited then floodLoop g t w visited res stack
      else (case cellAt g (fst cur) (snd cur) of
              None \<Rightarrow> floodLoop g t w (insert cur visited) res stack
            | Some b \<Rightarrow>
                if matches t b
                then floodLoop g t w (insert cur visited) (res @ [cur])
                       (rev (floodPushes g t w cur) @ stack)
                else floodLoop g t w (insert cur visited) res stack))"
  by pat_completeness auto

text \<open>
  Termination of both traversals: a step either visits a new cell of the finite set of
  grid cells and pending stack entries, or shortens the stack.
\<close>

definition pending :: "Grid \<Rightarrow> real \<Rightarrow> (int \<times> int) set \<Rightarrow> (int \<times> int) list \<Rightarrow> nat" where
  "pending g w visited stack = card ((cellsOf g w \<union> set stack) - visited)"

lemma pending_skip:
  "cur \<in> visited \<Longrightarrow> pending g w visited (cur # stack) = pending g w visited stack"
proof -
  assume "cur \<in> visited"
  then have "(cellsOf g w \<union> set (cur # stack)) - visited = (cellsOf g w \<union> set stack) - visited"
    by auto
  then show ?thesis by (simp only: pending_def)
qed

lemma pending_visit:
  assumes "cur \<notin> visited" and "set new \<subseteq> cellsOf g w"
  shows "pending g w (insert cur visited) (new @ stack) < pending g w visited (cur # stack)"
proof -
  have fin: "finite ((cellsOf g w \<union> set (cur # stack)) - visited)"
    by (simp add: finite_cellsOf)
  have "(cellsOf g w \<union> set (new @ stack)) - insert cur visited
      \<subset> (cellsOf g w \<union> set (cur # stack)) - visited"
    using assms by auto
  then show ?thesis
    unfolding pending_def using fin by (rule psubset_card_mono [rotated])
qed

termination floodLoop
proof (relation "measures [\<lambda>(g, t, w, visited, res, stack). pending g w visited stack,
                           \<lambda>(g, t, w, visited, res, stack). length stack]", goal_cases)
  case 1
  show ?case by simp
next
  case (2 g t w visited res cur stack)
  then show ?case by (simp add: pending_skip)
next
  case (3 g t w visited res cur stack)
  then show ?case using pending_visit [of cur visited "[]" g w stack] by simp
next
  case (4 g t w visited res cur stack b)
  then show ?case
    using pending_visit [of cur visited "rev (floodPushes g t w cur)" g w stack]
      floodPushes_in_cellsOf [of g t w cur] by simp
next
  case (5 g t w visited res cur stack b)
  then show ?case using pending_visit [of cur visited "[]" g w stack] by simp
qed

definition floodMatch :: "Grid \<Rightarrow> int \<Rightarrow> int \<Rightarrow> BubbleColor \<Rightarrow> real \<Rightarrow> (int \<times> int) list" where
  "floodMatch g r c targetColor w = floodLoop g targetColor w {} [] [(r, c)]"

subsection \<open>Removal of disconnected bubbles\<close>

text \<open>
  The traversal of \<^verbatim>\<open>removeDisconnected\<close>: the stack starts with the occupied cells of
  row 0, and a popped occupied cell pushes its occupied, unvisited, non-gray neighbours.
\<close>

definition rdPushes :: "Grid \<Rightarrow> real \<Rightarrow> (int \<times> int) set \<Rightarrow> int \<times> int \<Rightarrow> (int \<times> int) list" where
  "rdPushes g w visited cur =
     map (\<lambda>(rr, cc, nb). (rr, cc))
       (filter (\<lambda>(rr, cc, nb). case nb of None \<Rightarrow> False
                  | Some b \<Rightarrow> (rr, cc) \<notin> visited \<and> b_color b \<noteq> Gray)
          (neighbors g (fst cur) (snd cur) w))"

lemma rdPushes_in_cellsOf: "set (rdPushes g w visited cur) \<subseteq> cellsOf g w"
  by (auto simp: rdPushes_def dest: neighbors_in_cellsOf)

function rdLoop :: "Grid \<Rightarrow> real \<Rightarrow> (int \<times> int) set \<Rightarrow> (int \<times> int) list \<Rightarrow> (int \<times> int) set" where
  "rdLoop g w visited [] = visited"
| "rdLoop g w visited (cur # stack) =
     (if cur \<in> visited then rdLoop g w visited stack
      else (case cellAt g (fst cur) (snd cur) of
              None \<Rightarrow> rdLoop g w (insert cur visited) stack
            | Some b \<Rightarrow>
                rdLoop g w (insert cur visited)
                  (rev (rdPushes g w (insert cur visited) cur) @ stack)))"
  by pat_completeness auto

termination rdLoop
proof (relation "measures [\<lambda>(g, w, visited, stack). pending g w visited stack,
                           \<lambda>(g, w, visited, stack). length stack]", goal_cases)
  case 1
  show ?case by simp
next
  case (2 g w visited cur stack)
  then show ?case by (simp add: pending_skip)
next
  case (3 g w visited cur stack)
  then show ?case using pending_visit [of cur visited "[]" g w stack] by simp
next
  case (4 g w visited cur stack b)
  then show ?case
    using pending_visit [of cur visited "rev (rdPushes g w (insert cur visited) cur)" g w stack]
      rdPushes_in_cellsOf [of g w "insert cur visited" cur] by simp
qed

text \<open>The initial stack: \<^verbatim>\<open>for (c = 0; c < cols; c++) if (grid[0]?.[c]) stack.push(...)\<close>.\<close>

definition anchorStack :: "Grid \<Rightarrow> real \<Rightarrow> (int \<times> int) list" where
  "anchorStack g w =
     rev (map (\<lambda>c. (0, c)) (filter (\<lambda>c. cellAt g 0 c \<noteq> None) [0 .. computeGridSize w - 1]))"

text \<open>The sweep: the two nested \<^verbatim>\<open>for\<close> loops that clear cells and count them.\<close>

definition drops :: "(int \<times> int) set \<Rightarrow> int \<Rightarrow> int \<Rightarrow> Bubble option \<Rightarrow> bool" where
  "drops visited r c slot =
     (case slot of None \<Rightarrow> False | Some b \<Rightarrow> b_color b \<noteq> Gray \<and> (r, c) \<notin> visited)"

fun sweepRow :: "(int \<times> int) set \<Rightarrow> int \<Rightarrow> int \<Rightarrow> Bubble option list \<Rightarrow> Bubble option list \<times> int" where
  "sweepRow visited r c [] = ([], 0)"
| "sweepRow visited r c (slot # slots) =
     (let (slots', n) = sweepRow visited r (c + 1) slots
      in if drops visited r c slot then (None # slots', n + 1) else (slot # slots', n))"

fun sweepRows :: "(int \<times> int) set \<Rightarrow> int \<Rightarrow> Grid \<Rightarrow> Grid \<times> int" where
  "sweepRows visited r [] = ([], 0)"
| "sweepRows visited r (row # rows) =
     (let (row', n) = sweepRow visited r 0 row;
          (rows', m) = sweepRows visited (r + 1) rows
      in (row' # rows', n + m))"

definition removeDisconnected :: "bool \<Rightarrow> real \<Rightarrow> Game \<Rightarrow> Game \<times> int" where
  "removeDisconnected muted w s =
     (let grid = gridRef s;
          visited = rdLoop grid w {} (anchorStack grid w);
          (grid', dropCount) = sweepRows visited 0 grid
      in (s\<lparr>gridRef := grid',
            emitted := emitted s @
              (if dropCount > 0 \<and> \<not> muted then [PlayCombo (min 5 (1 + dropCount div 3))] else [])\<rparr>,
          dropCount))"

subsection \<open>Snapping\<close>

text \<open>
  \<^verbatim>\<open>placeBubbleAt\<close> returns \<^verbatim>\<open>false\<close> (\<open>None\<close>) or stores the bubble, whose fields it
  has updated; the updated bubble is returned with the state because the caller reads
  \<^verbatim>\<open>b.row\<close> and \<^verbatim>\<open>b.col\<close> afterwards.
\<close>

definition placeBubbleAt :: "int \<Rightarrow> int \<Rightarrow> Bubble \<Rightarrow> real \<Rightarrow> Game \<Rightarrow> (Game \<times> Bubble) option" where
  "placeBubbleAt r0 c0 b w s =
     (let grid = gridRef s;
          r1 = (if r0 < 0 then 0 else r0);
          r = (if r1 \<ge> int (length grid) then int (length grid) - 1 else r1);
          maxCols = computeGridSize w - (if jsRem r 2 = 1 then 1 else 0);
          c1 = (if c0 < 0 then 0 else c0);
          c = (if c1 \<ge> maxCols then maxCols - 1 else c1)
      in if cellAt grid r c \<noteq> None then None
         else (let (x, y) = gridToXY s r c w;
                   b' = b\<lparr>b_row := r, b_col := c, b_x := x, b_y := y, b_stationary := True\<rparr>
               in Some (s\<lparr>gridRef := setCell grid r c (Some b')\<rparr>, b')))"

definition snapCandidates :: "int \<times> int \<Rightarrow> (int \<times> int) list" where
  "snapCandidates guess =
     (let r = fst guess; c = snd guess
      in [(r, c), (r, c - 1), (r, c + 1), (r - 1, c), (r + 1, c), (r - 1, c - 1), (r + 1, c + 1)])"

text \<open>The \<^verbatim>\<open>for (const cand of candidates)\<close> loop with its \<^verbatim>\<open>break\<close>.\<close>

fun snapLoop :: "(int \<times> int) list \<Rightarrow> Bubble \<Rightarrow> real \<Rightarrow> Game \<Rightarrow> (Game \<times> Bubble) option" where
  "snapLoop [] b w s = None"
| "snapLoop (cand # cands) b w s =
     (case placeBubbleAt (fst cand) (snd cand) b w s of
        Some placed \<Rightarrow> Some placed
      | None \<Rightarrow> snapLoop cands b w s)"

subsection \<open>Bomb blast\<close>

text \<open>
  The breadth-first loop of the bomb branch: \<^verbatim>\<open>queue.shift()\<close> takes the head,
  \<^verbatim>\<open>queue.push\<close> appends. \<open>seen\<close> and \<open>around\<close> hold the same keys; \<open>around\<close> keeps the
  insertion order that the removal loop iterates in.
\<close>

definition bombWeight :: "(int \<times> int \<times> nat) list \<Rightarrow> nat" where
  "bombWeight queue = sum_list (map (\<lambda>(r, c, d). 7 ^ (3 - d)) queue)"

function bombLoop ::
  "Grid \<Rightarrow> real \<Rightarrow> (int \<times> int) set \<Rightarrow> (int \<times> int) list \<Rightarrow> (int \<times> int \<times> nat) list
    \<Rightarrow> (int \<times> int) list" where
  "bombLoop g w seen around [] = around"
| "bombLoop g w seen around ((r, c, d) # queue) =
     (if d > 2 then bombLoop g w seen around queue
      else if (r, c) \<in> seen then bombLoop g w seen around queue
      else bombLoop g w (insert (r, c) seen) (around @ [(r, c)])
             (queue @ map (\<lambda>(rr, cc, nb). (rr, cc, d + 1)) (neighbors g r c w)))"
  by pat_completeness auto

lemma bombWeight_children:
  assumes "d \<le> 2"
  shows "bombWeight (map (\<lambda>(rr, cc, nb). (rr, cc, d + 1)) ns) = length ns * 7 ^ (2 - d)"
proof (induction ns)
  case Nil
  show ?case by (simp add: bombWeight_def)
next
  case (Cons n ns)
  have "3 - (d + 1) = 2 - d" by simp
  with Cons show ?case
    by (cases n) (simp add: bombWeight_def)
qed

lemma bombWeight_step:
  assumes "d \<le> 2"
  shows "bombWeight (queue @ map (\<lambda>(rr, cc, nb). (rr, cc, d + 1)) (neighbors g r c w))
    < bombWeight ((r, c, d) # queue)"
proof -
  let ?ns = "map (\<lambda>(rr, cc, nb). (rr, cc, d + 1)) (neighbors g r c w)"
  have split: "bombWeight (queue @ ?ns) = bombWeight queue + bombWeight ?ns"
    by (simp add: bombWeight_def)
  have hd: "bombWeight ((r, c, d) # queue) = 7 ^ (3 - d) + bombWeight queue"
    by (simp add: bombWeight_def)
  have "bombWeight ?ns = length (neighbors g r c w) * 7 ^ (2 - d)"
    using assms by (rule bombWeight_children)
  also have "\<dots> \<le> 6 * 7 ^ (2 - d)"
    using length_neighbors [of g r c w] by simp
  also have "\<dots> < 7 * 7 ^ (2 - d)"
    by simp
  also have "\<dots> = 7 ^ (3 - d)"
    using assms by (simp add: Suc_diff_le flip: power_Suc)
  finally show ?thesis
    using split hd by linarith
qed

termination bombLoop
proof (relation "measure (\<lambda>(g, w, seen, around, queue). bombWeight queue)", goal_cases)
  case 1
  show ?case by simp
next
  case (2 g w seen around r c d queue)
  show ?case by (simp add: bombWeight_def)
next
  case (3 g w seen around r c d queue)
  show ?case by (simp add: bombWeight_def)
next
  case (4 g w seen around r c d queue)
  then show ?case using bombWeight_step [of d queue g r c w] by simp
qed

text \<open>The removal loop over \<open>around\<close>, counting \<open>removed\<close>.\<close>

fun blast :: "(int \<times> int) list \<Rightarrow> Grid \<Rightarrow> Grid \<times> int" where
  "blast [] g = (g, 0)"
| "blast ((r, c) # ks) g =
     (case cellAt g r c of
        None \<Rightarrow> blast ks g
      | Some bb \<Rightarrow>
          if b_color bb \<noteq> Gray
          then (let (g', n) = blast ks (setCell g r c None) in (g', n + 1))
          else blast ks g)"

subsection \<open>Resolution of a snapped bubble\<close>

text \<open>
  \<open>resolvePlaced\<close> is the part of \<^verbatim>\<open>trySnapAndResolve\<close> after \<^verbatim>\<open>if (!placed) return\<close>:
  the bomb, freeze and aim branches and the normal or rainbow match. \<open>dateNow\<close> is
  what \<^verbatim>\<open>Date.now()\<close> returns.
\<close>

definition clearCells :: "(int \<times> int) list \<Rightarrow> Grid \<Rightarrow> Grid" where
  "clearCells cells g = fold (\<lambda>cell g'. setCell g' (fst cell) (snd cell) None) cells g"

definition resolvePlaced :: "bool \<Rightarrow> real \<Rightarrow> Bubble \<Rightarrow> real \<Rightarrow> Game \<Rightarrow> Game" where
  "resolvePlaced muted dateNow b w s =
     (if b_kind b = Bomb then
        (let around = bombLoop (gridRef s) w {} [] [(b_row b, b_col b, 0)];
             (grid', removed) = blast around (gridRef s);
             s1 = s\<lparr>gridRef := grid',
                    emitted := emitted s @
                      (if removed > 0 \<and> \<not> muted
                       then [PlayPop (min 1.5 (0.5 + of_int removed * 0.1))] else [])\<rparr>
         in fst (removeDisconnected muted w s1))
      else if b_kind b = Freeze then
        s\<lparr>powerRef := (powerRef s)\<lparr>freezeUntil := dateNow + 5000\<rparr>,
          gridRef := setCell (gridRef s) (b_row b) (b_col b) None,
          emitted := emitted s @ (if \<not> muted then [PlayPop 1] else [])\<rparr>
      else if b_kind b = Aim then
        s\<lparr>powerRef := (powerRef s)\<lparr>aimBoostUntil := dateNow + 6000\<rparr>,
          gridRef := setCell (gridRef s) (b_row b) (b_col b) None,
          emitted := emitted s @ (if \<not> muted then [PlayPop 1] else [])\<rparr>
      else
        (let targetColor = b_color b;
             group = floodMatch (gridRef s) (b_row b) (b_col b) targetColor w
         in if length group \<ge> 3 then
              (let s1 = s\<lparr>gridRef := clearCells group (gridRef s),
                         scoreRef := scoreRef s + 10 * int (length group),
                         comboChainRef := comboChainRef s + 1,
                         emitted := emitted s @
                           (if \<not> muted
                            then [PlayPop (min 1.5 (0.6 + real (length group) * 0.05))] else [])\<rparr>;
                   (s2, dropped) = removeDisconnected muted w s1
               in if dropped > 0
                  then s2\<lparr>scoreRef := scoreRef s2 + 5 * dropped,
                          emitted := emitted s2 @ [ComboAchieved]\<rparr>
                  else s2)
            else s\<lparr>comboChainRef := 0\<rparr>))"

definition trySnapAndResolve :: "bool \<Rightarrow> real \<Rightarrow> Bubble \<Rightarrow> real \<Rightarrow> Game \<Rightarrow> Game" where
  "trySnapAndResolve muted dateNow b w s =
     (let guess = xyToGridGuess s (b_x b) (b_y b) w
      in case snapLoop (snapCandidates guess) b w s of
           None \<Rightarrow> s
         | Some (s1, b1) \<Rightarrow> resolvePlaced muted dateNow b1 w s1)"

subsection \<open>The shooter queue\<close>

text \<open>\<open>rnd i\<close> is the \<open>i\<close>-th \<^verbatim>\<open>Math.random()\<close> of the call.\<close>

definition rollKind :: "LevelConfig \<Rightarrow> real \<Rightarrow> BubbleKind" where
  "rollKind level roll =
     (if rainbowEnabled level \<and> roll < 0.08 then Rainbow
      else if roll < 0.11 then Bomb
      else if roll < 0.135 then Freeze
      else if roll < 0.16 then Aim
      else Normal)"

definition refillNextQueue :: "LevelConfig \<Rightarrow> (nat \<Rightarrow> real) \<Rightarrow> Game \<Rightarrow> Game" where
  "refillNextQueue level rnd s = s\<lparr>nextQueueRef := map (\<lambda>i. rollKind level (rnd i)) [0 ..< 3]\<rparr>"

text \<open>
  \<^verbatim>\<open>shoot(w, h)\<close>. \<open>newId\<close> and \<open>color\<close> are the results of \<^verbatim>\<open>randId()\<close> and of the
  random draw from the level's palette.
\<close>

definition shoot ::
  "LevelConfig \<Rightarrow> real \<Rightarrow> string \<Rightarrow> BubbleColor \<Rightarrow> (nat \<Rightarrow> real) \<Rightarrow> real \<Rightarrow> real \<Rightarrow> Game \<Rightarrow> Game" where
  "shoot level aimAngle newId color rnd w h s =
     (if movingRef s \<noteq> None then s
      else
        (let (kind, s1) =
               (case nextQueueRef s of
                  [] \<Rightarrow> (Normal, s)
                | k # rest \<Rightarrow> (k, s\<lparr>nextQueueRef := rest\<rparr>));
             s2 = (if length (nextQueueRef s1) < 2 then refillNextQueue level rnd s1 else s1);
             sx = w / 2;
             sy = h - BUBBLE_RADIUS - 8;
             dx = cos aimAngle;
             dy = sin aimAngle
         in s2\<lparr>movingRef := Some \<lparr>b_id = newId, b_row = - 1, b_col = - 1, b_x = sx, b_y = sy,
                                 b_color = color, b_kind = kind, b_stationary = False\<rparr>,
               dirRef := Some (dx, dy),
               emitted := emitted s2 @ [ShotFired]\<rparr>))"

text \<open>
  The queues the program can hold: \<^verbatim>\<open>nextQueueRef\<close> starts empty and only
  \<^verbatim>\<open>refillNextQueue\<close> and \<^verbatim>\<open>shoot\<close> assign it.
\<close>

inductive queueReachable :: "LevelConfig \<Rightarrow> BubbleKind list \<Rightarrow> bool" for level :: LevelConfig where
  initial: "queueReachable level []"
| refilled: "queueReachable level (nextQueueRef s)
    \<Longrightarrow> queueReachable level (nextQueueRef (refillNextQueue level rnd s))"
| shot: "queueReachable level (nextQueueRef s)
    \<Longrightarrow> queueReachable level (nextQueueRef (shoot level aimAngle newId color rnd w h s))"

subsection \<open>Descent\<close>

text \<open>
  \<^verbatim>\<open>addNewDescendingRow\<close>: \<open>draw c\<close> is the identifier and the colour drawn for column
  \<open>c\<close> of the new row.
\<close>

definition addNewDescendingRow :: "(int \<Rightarrow> string \<times> BubbleColor) \<Rightarrow> real \<Rightarrow> Game \<Rightarrow> Game" where
  "addNewDescendingRow draw w s =
     (let cols = computeGridSize w;
          newRow = map (\<lambda>c. let (x, y) = gridToXY s 0 c w
                             in Some \<lparr>b_id = fst (draw c), b_row = 0, b_col = c, b_x = x, b_y = y,
                                      b_color = snd (draw c), b_kind = Normal, b_stationary = True\<rparr>)
                     [0 .. cols - 1];
          shifted = map (map (map_option (\<lambda>b. b\<lparr>b_row := b_row b + 1\<rparr>))) (gridRef s)
      in s\<lparr>gridRef := butlast (newRow # shifted)\<rparr>)"

text \<open>
  The block \<^verbatim>\<open>// Update descent\<close> of the frame callback \<^verbatim>\<open>loop(now)\<close>, from the
  computation of \<^verbatim>\<open>dt\<close> to the insertion of a row. \<open>lastT\<close> (the variable \<^verbatim>\<open>last\<close>) is the time of the previous
  frame, \<open>dateNow\<close> what \<^verbatim>\<open>Date.now()\<close> returns, \<open>w\<close> the canvas width.
\<close>

definition loop_descent ::
  "LevelConfig \<Rightarrow> (int \<Rightarrow> string \<times> BubbleColor) \<Rightarrow> real \<Rightarrow> real \<Rightarrow> real \<Rightarrow> real \<Rightarrow> Game \<Rightarrow> Game" where
  "loop_descent level draw now lastT dateNow w s =
     (let dt = min 0.033 ((now - lastT) / 1000);
          frozen = (dateNow < freezeUntil (powerRef s));
          descent = (if frozen then descentSpeed level * 0.35 else descentSpeed level) * dt;
          s1 = s\<lparr>descentOffsetRef := descentOffsetRef s + descent\<rparr>;
          addRowThreshold = ROW_V_SPACING
      in if descentOffsetRef s1 > addRowThreshold
         then addNewDescendingRow draw w (s1\<lparr>descentOffsetRef := descentOffsetRef s1 - addRowThreshold\<rparr>)
         else s1)"

subsection \<open>Sequences of frames\<close>

text \<open>
  One \<open>Tick\<close> holds what a frame reads from outside: the frame time \<^verbatim>\<open>now\<close>, the time
  \<^verbatim>\<open>last\<close> of the previous frame, \<^verbatim>\<open>Date.now()\<close> and the draws for a new row. \<open>ticks\<close>
  runs the descent block of consecutive frames.
\<close>

record Tick =
  t_now :: real
  t_last :: real
  t_dateNow :: real
  t_draw :: "int \<Rightarrow> string \<times> BubbleColor"

fun ticks :: "LevelConfig \<Rightarrow> real \<Rightarrow> Tick list \<Rightarrow> Game \<Rightarrow> Game" where
  "ticks level w [] s = s"
| "ticks level w (t # ts) s =
     ticks level w ts (loop_descent level (t_draw t) (t_now t) (t_last t) (t_dateNow t) w s)"

text \<open>The value of the variable \<^verbatim>\<open>descent\<close> of a frame.\<close>

definition tickIncrement :: "LevelConfig \<Rightarrow> real \<Rightarrow> real \<Rightarrow> real \<Rightarrow> Game \<Rightarrow> real" where
  "tickIncrement level now lastT dateNow s =
     (if dateNow < freezeUntil (powerRef s) then descentSpeed level * 0.35 else descentSpeed level)
       * min 0.033 ((now - lastT) / 1000)"

text \<open>
  The invariant of the data model: the cached position of every bubble in the grid is
  \<open>gridToXY\<close> of its row and column at the current descent offset.
\<close>

definition cachedXY :: "Game \<Rightarrow> real \<Rightarrow> bool" where
  "cachedXY s w =
     list_all (list_all (\<lambda>slot. case slot of None \<Rightarrow> True
                 | Some b \<Rightarrow> (b_x b, b_y b) = gridToXY s (b_row b) (b_col b) w)) (gridRef s)"

subsection \<open>Anchored cells\<close>

text \<open>
  The specification's set of grid-anchored cells: an occupied cell of row 0, or a
  non-gray occupied neighbour of an anchored cell.
\<close>

inductive anchored :: "Grid \<Rightarrow> real \<Rightarrow> int \<times> int \<Rightarrow> bool" for g :: Grid and w :: real where
  top: "0 \<le> c \<Longrightarrow> c < computeGridSize w \<Longrightarrow> cellAt g 0 c \<noteq> None \<Longrightarrow> anchored g w (0, c)"
| link: "anchored g w (r, c) \<Longrightarrow> (rr, cc, Some b) \<in> set (neighbors g r c w) \<Longrightarrow> b_color b \<noteq> Gray
    \<Longrightarrow> anchored g w (rr, cc)"

text \<open>The number of bubbles in a row and in a grid.\<close>

definition occupiedIn :: "Bubble option list \<Rightarrow> int" where
  "occupiedIn slots = int (length (filter (\<lambda>slot. slot \<noteq> None) slots))"

definition countOccupied :: "Grid \<Rightarrow> int" where
  "countOccupied g = sum_list (map occupiedIn g)"

text \<open>
  The invariant of the traversal: every non-gray occupied neighbour of an occupied cell
  of \<open>V\<close> is in \<open>V\<close> or in \<open>S\<close> (visited or still on the stack).
\<close>

definition closedUnder :: "Grid \<Rightarrow> real \<Rightarrow> (int \<times> int) set \<Rightarrow> (int \<times> int) set \<Rightarrow> bool" where
  "closedUnder g w V S \<longleftrightarrow>
     (\<forall>r c rr cc b. (r, c) \<in> V \<longrightarrow> cellAt g r c \<noteq> None \<longrightarrow>
        (rr, cc, Some b) \<in> set (neighbors g r c w) \<longrightarrow> b_color b \<noteq> Gray \<longrightarrow> (rr, cc) \<in> V \<union> S)"

subsection \<open>Parts of the snap, named for the statements\<close>

text \<open>
  \<open>clampCell\<close> is the clamping of row and column at the head of \<^verbatim>\<open>placeBubbleAt\<close>,
  \<open>freeAt\<close> its occupancy test on the clamped cell, \<open>storeAt\<close> the assignments that
  follow it (\<open>storeXY\<close> with the position left open).
\<close>


definition clampCell :: "Grid \<Rightarrow> real \<Rightarrow> int \<times> int \<Rightarrow> int \<times> int" where
  "clampCell grid w cand =
     (let r1 = (if fst cand < 0 then 0 else fst cand);
          r = (if r1 \<ge> int (length grid) then int (length grid) - 1 else r1);
          maxCols = computeGridSize w - (if jsRem r 2 = 1 then 1 else 0);
          c1 = (if snd cand < 0 then 0 else snd cand);
          c = (if c1 \<ge> maxCols then maxCols - 1 else c1)
      in (r, c))"

definition freeAt :: "Grid \<Rightarrow> real \<Rightarrow> int \<times> int \<Rightarrow> bool" where
  "freeAt grid w cand =
     (cellAt grid (fst (clampCell grid w cand)) (snd (clampCell grid w cand)) = None)"

definition storeXY :: "Game \<Rightarrow> Bubble \<Rightarrow> int \<Rightarrow> int \<Rightarrow> real \<Rightarrow> real \<Rightarrow> Game \<times> Bubble" where
  "storeXY s b r c x y =
     (let b' = b\<lparr>b_row := r, b_col := c, b_x := x, b_y := y, b_stationary := True\<rparr>
      in (s\<lparr>gridRef := setCell (gridRef s) r c (Some b')\<rparr>, b'))"

definition storeAt :: "Game \<Rightarrow> Bubble \<Rightarrow> real \<Rightarrow> int \<times> int \<Rightarrow> Game \<times> Bubble" where
  "storeAt s b w cell =
     storeXY s b (fst cell) (snd cell)
       (fst (gridToXY s (fst cell) (snd cell) w)) (snd (gridToXY s (fst cell) (snd cell) w))"

text \<open>
  The state of the match branch after the matched cells are cleared and scored, before
  \<^verbatim>\<open>removeDisconnected\<close> runs.
\<close>

definition afterMatch :: "bool \<Rightarrow> (int \<times> int) list \<Rightarrow> Game \<Rightarrow> Game" where
  "afterMatch muted cells s =
     s\<lparr>gridRef := clearCells cells (gridRef s),
       scoreRef := scoreRef s + 10 * int (length cells),
       comboChainRef := comboChainRef s + 1,
       emitted := emitted s @
         (if \<not> muted then [PlayPop (min 1.5 (0.6 + real (length cells) * 0.05))] else [])\<rparr>"

subsection \<open>The bomb's radius, named for the statements\<close>

text \<open>
  \<open>cellsAround\<close> is the list of cells that \<^verbatim>\<open>neighbors\<close> returns, \<open>neighborCells\<close> the same
  as a set; \<open>within2\<close> is the start cell, its neighbours and their neighbours; \<open>atDepth\<close>
  tags cells with the depth they are queued at.
\<close>

definition neighborCells :: "Grid \<Rightarrow> real \<Rightarrow> int \<times> int \<Rightarrow> (int \<times> int) set" where
  "neighborCells g w cell = (\<lambda>(rr, cc, nb). (rr, cc)) ` set (neighbors g (fst cell) (snd cell) w)"

definition within2 :: "Grid \<Rightarrow> real \<Rightarrow> int \<times> int \<Rightarrow> (int \<times> int) set" where
  "within2 g w start =
     {start} \<union> neighborCells g w start \<union> (\<Union>n \<in> neighborCells g w start. neighborCells g w n)"

definition atDepth :: "nat \<Rightarrow> (int \<times> int) list \<Rightarrow> (int \<times> int \<times> nat) list" where
  "atDepth d cells = map (\<lambda>(r, c). (r, c, d)) cells"

definition cellsAround :: "Grid \<Rightarrow> real \<Rightarrow> int \<Rightarrow> int \<Rightarrow> (int \<times> int) list" where
  "cellsAround g w r c = map (\<lambda>(rr, cc, nb). (rr, cc)) (neighbors g r c w)"

subsection \<open>Example inputs\<close>

text \<open>
  Concrete inputs for the evaluations below: a canvas 256 pixels wide (8 columns), 18
  rows, descent offset 0. \<open>exBubble v r c\<close> is a bubble at row \<open>r\<close> and column \<open>c\<close>
  whose cached position is the one \<open>gridToXY\<close> gives at offset 0 when \<open>v\<close> is the row
  spacing; the example grids take \<open>v\<close> as a parameter and are used at
  \<open>ROW_V_SPACING\<close>.
\<close>

definition exLevel :: LevelConfig where
  "exLevel = \<lparr>descentSpeed = 10, rainbowEnabled = False\<rparr>"

definition fastLevel :: LevelConfig where
  "fastLevel = \<lparr>descentSpeed = 2000, rainbowEnabled = False\<rparr>"

definition stepLevel :: LevelConfig where
  "stepLevel = \<lparr>descentSpeed = 20, rainbowEnabled = False\<rparr>"

definition exDraw :: "int \<Rightarrow> string \<times> BubbleColor" where
  "exDraw c = ([], Red)"

definition exBubble :: "real \<Rightarrow> int \<Rightarrow> int \<Rightarrow> BubbleColor \<Rightarrow> BubbleKind \<Rightarrow> Bubble" where
  "exBubble v r c col k =
     \<lparr>b_id = [], b_row = r, b_col = c,
      b_x = (if jsRem r 2 = 0 then 0 else COL_H_SPACING / 2) + BUBBLE_RADIUS + of_int c * COL_H_SPACING,
      b_y = BUBBLE_RADIUS + of_int r * v,
      b_color = col, b_kind = k, b_stationary = True\<rparr>"

definition exGame :: "Grid \<Rightarrow> Game" where
  "exGame g = \<lparr>gridRef = g, movingRef = None, dirRef = None, scoreRef = 0, comboChainRef = 0,
     descentOffsetRef = 0, powerRef = \<lparr>freezeUntil = 0, aimBoostUntil = 0\<rparr>,
     nextQueueRef = [Normal, Normal, Normal], emitted = []\<rparr>"

definition exGridOne :: Grid where
  "exGridOne =
     (Some (exBubble ROW_V_SPACING 0 0 Red Normal) # replicate 7 None) # replicate 17 (replicate 8 None)"

text \<open>
  A state a quarter of a pixel below the insertion threshold, and two frames of 25 ms.
\<close>

definition exNearGame :: Game where
  "exNearGame = (exGame exGridOne)\<lparr>descentOffsetRef := ROW_V_SPACING - 0.25\<rparr>"

definition exCrossTicks :: "Tick list" where
  "exCrossTicks = [\<lparr>t_now = 25, t_last = 0, t_dateNow = 0, t_draw = exDraw\<rparr>,
                   \<lparr>t_now = 50, t_last = 25, t_dateNow = 25, t_draw = exDraw\<rparr>]"

definition exRolls :: "nat \<Rightarrow> real" where
  "exRolls i = (if i = 0 then 0.5 else if i = 1 then 0.1 else 0.12)"

definition exGridFloat :: "real \<Rightarrow> Grid" where
  "exGridFloat v =
     [ [Some (exBubble v 0 0 Red Normal), None, None, None, None, None, None, None],
       [Some (exBubble v 1 0 Blue Normal), None, None, None, None, None, None, None],
       [None, None, None, None, None, None, None, None],
       [None, None, None, Some (exBubble v 3 3 Green Normal), None, None, None, None],
       [None, None, None, None, Some (exBubble v 4 4 Gray Normal), None, None, None] ]
     @ replicate 13 (replicate 8 None)"

text \<open>A bubble in flight, as \<^verbatim>\<open>shoot\<close> creates it.\<close>

definition exFlying :: "BubbleColor \<Rightarrow> BubbleKind \<Rightarrow> real \<Rightarrow> real \<Rightarrow> Bubble" where
  "exFlying col k x y =
     \<lparr>b_id = [], b_row = - 1, b_col = - 1, b_x = x, b_y = y, b_color = col, b_kind = k,
      b_stationary = False\<rparr>"

definition exGridRow :: "real \<Rightarrow> Grid" where
  "exGridRow v =
     [Some (exBubble v 0 0 Red Normal), Some (exBubble v 0 1 Red Normal),
      None, None, None, None, None, None]
     # replicate 17 (replicate 8 None)"

definition exGridChain :: "real \<Rightarrow> Grid" where
  "exGridChain v =
     [ [Some (exBubble v 0 0 Red Normal), None, None, None, None, None, None, None],
       [Some (exBubble v 1 0 Blue Normal), None, None, None, None, None, None, None],
       [Some (exBubble v 2 0 Green Normal), None, None, None, None, None, None, None],
       [Some (exBubble v 3 0 Yellow Normal), None, None, None, None, None, None, None] ]
     @ replicate 14 (replicate 8 None)"

text \<open>
  A bubble in flight that reaches the ceiling at the centre of column \<open>c\<close> of row 0.
\<close>

definition exShot :: "BubbleColor \<Rightarrow> BubbleKind \<Rightarrow> int \<Rightarrow> Bubble" where
  "exShot col k c = exFlying col k (BUBBLE_RADIUS + of_int c * COL_H_SPACING) BUBBLE_RADIUS"

section \<open>Properties\<close>

subsection \<open>Basic facts\<close>

lemma ROW_V_SPACING_pos: "0 < ROW_V_SPACING"
  by (simp add: ROW_V_SPACING_def BUBBLE_RADIUS_def)

lemma COL_H_SPACING_pos: "0 < COL_H_SPACING"
  by (simp add: COL_H_SPACING_def BUBBLE_DIAMETER_def BUBBLE_RADIUS_def)

lemma Math_round_of_int: "Math_round (of_int n) = n"
proof -
  have "\<lfloor>(of_int n :: real) + 1 / 2\<rfloor> = n"
    by (rule floor_unique) simp_all
  then show ?thesis by (simp add: Math_round_def)
qed

text \<open>
  C8. For every cell and every descent offset, \<open>xyToGridGuess\<close> applied to the pixel
  position that \<open>gridToXY\<close> gives the cell returns the cell (in particular for every
  cell inside the grid).
\<close>

theorem xyToGridGuess_gridToXY:
  "xyToGridGuess s (fst (gridToXY s r c w)) (snd (gridToXY s r c w)) w = (r, c)"
proof -
  have V: "ROW_V_SPACING \<noteq> 0" and H: "COL_H_SPACING \<noteq> 0"
    using ROW_V_SPACING_pos COL_H_SPACING_pos by simp_all
  have row: "Math_round ((snd (gridToXY s r c w) + descentOffsetRef s - BUBBLE_RADIUS)
      / ROW_V_SPACING) = r"
    using V by (simp add: gridToXY_def Let_def Math_round_of_int)
  have col: "Math_round ((fst (gridToXY s r c w)
      - (if jsRem r 2 = 0 then 0 else COL_H_SPACING / 2) - BUBBLE_RADIUS) / COL_H_SPACING) = c"
    using H by (simp add: gridToXY_def Let_def Math_round_of_int)
  show ?thesis
    unfolding xyToGridGuess_def Let_def row using col by simp
qed


text \<open>
  The inverse is stable: a position less than half a cell away from the centre of a
  cell, in each direction, is still guessed as that cell.
\<close>

lemma Math_round_near:
  assumes "\<bar>e\<bar> < 1 / 2"
  shows "Math_round (of_int n + e) = n"
proof -
  have "\<lfloor>of_int n + e + 1 / 2\<rfloor> = n"
    using assms by (intro floor_unique) (simp_all add: abs_less_iff)
  then show ?thesis by (simp add: Math_round_def)
qed

lemma xyToGridGuess_near:
  assumes "\<bar>dx\<bar> < COL_H_SPACING / 2" and "\<bar>dy\<bar> < ROW_V_SPACING / 2"
  shows "xyToGridGuess s (fst (gridToXY s r c w) + dx) (snd (gridToXY s r c w) + dy) w = (r, c)"
proof -
  have V: "0 < ROW_V_SPACING" and H: "0 < COL_H_SPACING"
    by (rule ROW_V_SPACING_pos, rule COL_H_SPACING_pos)
  have ey: "\<bar>dy / ROW_V_SPACING\<bar> < 1 / 2"
    using assms(2) V by (simp add: abs_divide pos_divide_less_eq)
  have ex: "\<bar>dx / COL_H_SPACING\<bar> < 1 / 2"
    using assms(1) H by (simp add: abs_divide pos_divide_less_eq)
  have "(snd (gridToXY s r c w) + dy + descentOffsetRef s - BUBBLE_RADIUS) / ROW_V_SPACING
      = of_int r + dy / ROW_V_SPACING"
    using V by (simp add: gridToXY_def Let_def field_simps)
  then have row: "Math_round ((snd (gridToXY s r c w) + dy + descentOffsetRef s - BUBBLE_RADIUS)
      / ROW_V_SPACING) = r"
    using Math_round_near [OF ey, of r] by simp
  have "(fst (gridToXY s r c w) + dx - (if jsRem r 2 = 0 then 0 else COL_H_SPACING / 2)
      - BUBBLE_RADIUS) / COL_H_SPACING = of_int c + dx / COL_H_SPACING"
    using H by (simp add: gridToXY_def Let_def field_simps)
  then have col: "Math_round ((fst (gridToXY s r c w) + dx
      - (if jsRem r 2 = 0 then 0 else COL_H_SPACING / 2) - BUBBLE_RADIUS) / COL_H_SPACING) = c"
    using Math_round_near [OF ex, of c] by simp
  show ?thesis
    unfolding xyToGridGuess_def Let_def row using col by simp
qed

subsection \<open>Shooting\<close>

text \<open>
  C9. While a bubble is in flight, \<open>shoot\<close> changes nothing: the queue and its head,
  the bubble in flight and the log of emitted events are the ones before the call.
\<close>

theorem shoot_in_flight_noop:
  "movingRef s \<noteq> None \<Longrightarrow> shoot level aimAngle newId color rnd w h s = s"
  by (simp add: shoot_def)

theorem shoot_in_flight_noop_witness:
  "movingRef ((exGame exGridOne)\<lparr>movingRef := Some (exFlying Red Bomb 128 100)\<rparr>) \<noteq> None
   \<and> shoot exLevel (- pi / 2) [] Blue (\<lambda>i. 0) 256 400
        ((exGame exGridOne)\<lparr>movingRef := Some (exFlying Red Bomb 128 100)\<rparr>)
      = (exGame exGridOne)\<lparr>movingRef := Some (exFlying Red Bomb 128 100)\<rparr>"
  using shoot_in_flight_noop
    [of "(exGame exGridOne)\<lparr>movingRef := Some (exFlying Red Bomb 128 100)\<rparr>"
        exLevel "- pi / 2" "[]" Blue "\<lambda>i. 0" 256 400]
  by simp

lemma refillNextQueue_queue:
  "nextQueueRef (refillNextQueue level rnd s)
     = [rollKind level (rnd 0), rollKind level (rnd 1), rollKind level (rnd 2)]"
proof -
  have "[0 ..< 3] = [0, 1, 2::nat]"
    by (simp add: upt_rec)
  then show ?thesis
    by (simp add: refillNextQueue_def)
qed

lemma shoot_queue:
  assumes "movingRef s = None" and "length (nextQueueRef s) \<le> 3"
  shows "nextQueueRef (shoot level aimAngle newId color rnd w h s)
           = (if length (nextQueueRef s) < 3
              then [rollKind level (rnd 0), rollKind level (rnd 1), rollKind level (rnd 2)]
              else tl (nextQueueRef s))"
proof (cases "nextQueueRef s")
  case Nil
  then show ?thesis
    using assms(1) by (simp add: shoot_def refillNextQueue_queue Let_def)
next
  case (Cons k rest)
  then have "length rest \<le> 2"
    using assms(2) by simp
  then show ?thesis
    using assms(1) Cons by (auto simp: shoot_def refillNextQueue_queue Let_def)
qed

lemma queue_length_invariant:
  assumes "length (nextQueueRef s) \<le> 3"
  shows "length (nextQueueRef (refillNextQueue level rnd s)) \<le> 3"
    and "length (nextQueueRef (shoot level aimAngle newId color rnd w h s)) \<le> 3"
proof -
  show "length (nextQueueRef (refillNextQueue level rnd s)) \<le> 3"
    by (simp add: refillNextQueue_queue)
  show "length (nextQueueRef (shoot level aimAngle newId color rnd w h s)) \<le> 3"
  proof (cases "movingRef s = None")
    case True
    from shoot_queue [OF True assms] assms show ?thesis
      by simp
  next
    case False
    then show ?thesis using assms by (simp add: shoot_def)
  qed
qed

lemma queueReachable_length: "queueReachable level q \<Longrightarrow> length q \<le> 3"
proof (induction rule: queueReachable.induct)
  case initial
  show ?case by simp
next
  case (refilled s rnd)
  from queue_length_invariant(1) [OF refilled.IH] show ?case .
next
  case (shot s aimAngle newId color rnd w h)
  from queue_length_invariant(2) [OF shot.IH] show ?case .
qed

text \<open>
  C10. \<open>refillNextQueue\<close> sets the queue to three freshly rolled kinds whatever it
  held. On every queue that \<open>refillNextQueue\<close> and \<open>shoot\<close> produce from the empty
  initial one, a launching \<open>shoot\<close> leaves the three rolled kinds when fewer than three
  were queued, the kind left behind the head being dropped, and the tail of the queue
  otherwise: the length of the queue is then 2 or 3.
\<close>

theorem shoot_queue_length:
  assumes "movingRef s = None" and "queueReachable level (nextQueueRef s)"
  shows "nextQueueRef (refillNextQueue level rnd s)
           = [rollKind level (rnd 0), rollKind level (rnd 1), rollKind level (rnd 2)]
    \<and> nextQueueRef (shoot level aimAngle newId color rnd w h s)
           = (if length (nextQueueRef s) < 3
              then [rollKind level (rnd 0), rollKind level (rnd 1), rollKind level (rnd 2)]
              else tl (nextQueueRef s))
    \<and> (length (nextQueueRef (shoot level aimAngle newId color rnd w h s)) = 2
       \<or> length (nextQueueRef (shoot level aimAngle newId color rnd w h s)) = 3)"
proof -
  have len: "length (nextQueueRef s) \<le> 3"
    using assms(2) by (rule queueReachable_length)
  note q = shoot_queue [OF assms(1) len, of level aimAngle newId color rnd w h]
  have "length (nextQueueRef (shoot level aimAngle newId color rnd w h s)) = 2
      \<or> length (nextQueueRef (shoot level aimAngle newId color rnd w h s)) = 3"
    unfolding q using len by auto
  with q show ?thesis
    by (simp add: refillNextQueue_queue)
qed

lemma exQueue_reachable: "queueReachable exLevel [Bomb, Freeze]"
proof -
  let ?s0 = "(exGame exGridOne)\<lparr>nextQueueRef := []\<rparr>"
  let ?s1 = "refillNextQueue exLevel exRolls ?s0"
  have "queueReachable exLevel (nextQueueRef ?s0)"
    by (simp add: queueReachable.initial)
  then have "queueReachable exLevel (nextQueueRef ?s1)"
    by (rule queueReachable.refilled)
  then have "queueReachable exLevel
      (nextQueueRef (shoot exLevel (- pi / 2) [] Blue exRolls 256 400 ?s1))"
    by (rule queueReachable.shot)
  moreover have "nextQueueRef ?s1 = [Normal, Bomb, Freeze]"
    by (simp add: refillNextQueue_queue rollKind_def exLevel_def exRolls_def)
  moreover have "movingRef ?s1 = None"
    by (simp add: refillNextQueue_def exGame_def)
  ultimately show ?thesis
    by (simp add: shoot_def Let_def)
qed

theorem shoot_queue_length_witness:
  "movingRef ((exGame exGridOne)\<lparr>nextQueueRef := [Bomb, Freeze]\<rparr>) = None
   \<and> queueReachable exLevel (nextQueueRef ((exGame exGridOne)\<lparr>nextQueueRef := [Bomb, Freeze]\<rparr>))
   \<and> nextQueueRef (shoot exLevel (- pi / 2) [] Blue (\<lambda>i. 1 / 2) 256 400
        ((exGame exGridOne)\<lparr>nextQueueRef := [Bomb, Freeze]\<rparr>)) = [Normal, Normal, Normal]"
proof -
  let ?s = "(exGame exGridOne)\<lparr>nextQueueRef := [Bomb, Freeze]\<rparr>"
  have m: "movingRef ?s = None"
    by (simp add: exGame_def)
  have r: "queueReachable exLevel (nextQueueRef ?s)"
    using exQueue_reachable by simp
  from shoot_queue_length [OF m r, of "\<lambda>i. 1 / 2" "- pi / 2" "[]" Blue 256 400] m r
  show ?thesis
    by (simp add: exLevel_def rollKind_def)
qed

subsection \<open>Descent\<close>

lemma sqrt3_bounds: "1 < sqrt 3" "sqrt 3 < 2"
proof -
  show "1 < sqrt 3" by simp
  show "sqrt 3 < 2" by (rule real_less_lsqrt) simp_all
qed

lemma ROW_V_SPACING_bounds: "15.68 < ROW_V_SPACING" "ROW_V_SPACING < 31.36"
  using sqrt3_bounds by (simp_all add: ROW_V_SPACING_def BUBBLE_RADIUS_def)

lemma descentOffset_addNewDescendingRow:
  "descentOffsetRef (addNewDescendingRow draw w s) = descentOffsetRef s"
  by (simp add: addNewDescendingRow_def Let_def)

lemma loop_descent_unfold:
  "loop_descent level draw now lastT dateNow w s =
     (let off = descentOffsetRef s + tickIncrement level now lastT dateNow s
      in if off > ROW_V_SPACING
         then addNewDescendingRow draw w (s\<lparr>descentOffsetRef := off - ROW_V_SPACING\<rparr>)
         else s\<lparr>descentOffsetRef := off\<rparr>)"
  by (simp add: loop_descent_def tickIncrement_def Let_def)

lemma loop_descent_offset:
  "descentOffsetRef (loop_descent level draw now lastT dateNow w s) =
     (let off = descentOffsetRef s + tickIncrement level now lastT dateNow s
      in if off > ROW_V_SPACING then off - ROW_V_SPACING else off)"
  by (simp add: loop_descent_unfold Let_def descentOffset_addNewDescendingRow)

lemma tickIncrement_bounds:
  assumes "0 \<le> descentSpeed level" and "descentSpeed level * 0.033 \<le> ROW_V_SPACING"
    and "lastT \<le> now"
  shows "0 \<le> tickIncrement level now lastT dateNow s"
    and "tickIncrement level now lastT dateNow s \<le> ROW_V_SPACING"
proof -
  let ?dt = "min 0.033 ((now - lastT) / 1000)"
  let ?rate = "if dateNow < freezeUntil (powerRef s) then descentSpeed level * 0.35
               else descentSpeed level"
  have dt: "0 \<le> ?dt" "?dt \<le> 0.033" using assms(3) by simp_all
  have rate: "0 \<le> ?rate" "?rate \<le> descentSpeed level" using assms(1) by simp_all
  show "0 \<le> tickIncrement level now lastT dateNow s"
    unfolding tickIncrement_def using dt(1) rate(1) by (rule mult_nonneg_nonneg [rotated])
  have "?rate * ?dt \<le> descentSpeed level * 0.033"
    using rate dt assms(1) by (intro mult_mono) simp_all
  then show "tickIncrement level now lastT dateNow s \<le> ROW_V_SPACING"
    unfolding tickIncrement_def using assms(2) by linarith
qed

lemma loop_descent_keeps_bounds:
  assumes "0 \<le> descentSpeed level" and "descentSpeed level * 0.033 \<le> ROW_V_SPACING"
    and "lastT \<le> now"
    and "0 \<le> descentOffsetRef s" and "descentOffsetRef s \<le> ROW_V_SPACING"
  shows "0 \<le> descentOffsetRef (loop_descent level draw now lastT dateNow w s)
    \<and> descentOffsetRef (loop_descent level draw now lastT dateNow w s) \<le> ROW_V_SPACING"
  using tickIncrement_bounds [OF assms(1-3), of dateNow s] assms(4,5)
  by (simp add: loop_descent_offset Let_def)

lemma ticks_keep_bounds:
  assumes "0 \<le> descentSpeed level" and "descentSpeed level * 0.033 \<le> ROW_V_SPACING"
  shows "list_all (\<lambda>t. t_last t \<le> t_now t) ts \<Longrightarrow>
    0 \<le> descentOffsetRef s \<Longrightarrow> descentOffsetRef s \<le> ROW_V_SPACING \<Longrightarrow>
    0 \<le> descentOffsetRef (ticks level w ts s) \<and> descentOffsetRef (ticks level w ts s) \<le> ROW_V_SPACING"
proof (induction ts arbitrary: s)
  case Nil
  then show ?case by simp
next
  case (Cons t ts)
  from Cons.prems have t: "t_last t \<le> t_now t" and ts: "list_all (\<lambda>t. t_last t \<le> t_now t) ts"
    by simp_all
  have step: "0 \<le> descentOffsetRef (loop_descent level (t_draw t) (t_now t) (t_last t) (t_dateNow t) w s)
    \<and> descentOffsetRef (loop_descent level (t_draw t) (t_now t) (t_last t) (t_dateNow t) w s)
        \<le> ROW_V_SPACING"
    using assms t Cons.prems(2,3) by (rule loop_descent_keeps_bounds)
  show ?case
    using Cons.IH [OF ts] step by simp
qed

text \<open>
  What a row insertion does to the grid: the new row becomes row 0, filled in every
  column with a normal bubble at the position \<open>gridToXY\<close> gives for row 0; every
  earlier row moves one index down with the \<open>row\<close> field of its bubbles incremented
  and nothing else of them changed; the last row is discarded; no other part of the
  state changes.
\<close>

lemma gridToXY_offset:
  "descentOffsetRef s = descentOffsetRef t \<Longrightarrow> gridToXY s r c w = gridToXY t r c w"
  by (simp add: gridToXY_def)

lemma addNewDescendingRow_fields:
  "(addNewDescendingRow draw w s)\<lparr>gridRef := g\<rparr> = s\<lparr>gridRef := g\<rparr>"
  by (simp add: addNewDescendingRow_def Let_def)

lemma addNewDescendingRow_top:
  assumes "gridRef s \<noteq> []" and "0 \<le> c" and "c < computeGridSize w"
  shows "cellAt (gridRef (addNewDescendingRow draw w s)) 0 c =
    Some \<lparr>b_id = fst (draw c), b_row = 0, b_col = c,
          b_x = fst (gridToXY s 0 c w), b_y = snd (gridToXY s 0 c w),
          b_color = snd (draw c), b_kind = Normal, b_stationary = True\<rparr>"
proof -
  let ?f = "\<lambda>c. let (x, y) = gridToXY s 0 c w
                 in Some \<lparr>b_id = fst (draw c), b_row = 0, b_col = c, b_x = x, b_y = y,
                          b_color = snd (draw c), b_kind = Normal, b_stationary = True\<rparr>"
  let ?newRow = "map ?f [0 .. computeGridSize w - 1]"
  let ?shifted = "map (map (map_option (\<lambda>b. b\<lparr>b_row := b_row b + 1\<rparr>))) (gridRef s)"
  have grid: "gridRef (addNewDescendingRow draw w s) = ?newRow # butlast ?shifted"
    using assms(1) by (simp add: addNewDescendingRow_def Let_def)
  have len: "length ?newRow = nat (computeGridSize w)"
    by simp
  have idx: "[0 .. computeGridSize w - 1] ! nat c = c"
    using assms(2,3) by (simp add: nth_upto)
  have "?newRow ! nat c = ?f c"
    using assms(2,3) idx by simp
  then show ?thesis
    unfolding grid using assms(2,3) len
    by (simp add: cellAt_def case_prod_unfold Let_def)
qed

lemma addNewDescendingRow_below:
  assumes "1 \<le> r" and "r < int (length (gridRef s))"
  shows "cellAt (gridRef (addNewDescendingRow draw w s)) r c =
    map_option (\<lambda>b. b\<lparr>b_row := b_row b + 1\<rparr>) (cellAt (gridRef s) (r - 1) c)"
proof -
  let ?sh = "map (map_option (\<lambda>b. b\<lparr>b_row := b_row b + 1\<rparr>))"
  let ?g = "gridRef s"
  obtain newRow where grid: "gridRef (addNewDescendingRow draw w s) = butlast (newRow # map ?sh ?g)"
    by (simp add: addNewDescendingRow_def Let_def)
  have k: "nat r = Suc (nat (r - 1))" "nat (r - 1) < length ?g" "nat r < length ?g"
    using assms by simp_all
  have "butlast (newRow # map ?sh ?g) ! nat r = (newRow # map ?sh ?g) ! nat r"
    by (rule nth_butlast) (use k(3) in auto)
  also have "\<dots> = map ?sh ?g ! nat (r - 1)"
    by (simp add: k(1))
  also have "\<dots> = ?sh (?g ! nat (r - 1))"
    using k(2) by (rule nth_map)
  finally have row: "butlast (newRow # map ?sh ?g) ! nat r = ?sh (?g ! nat (r - 1))" .
  have len: "length (butlast (newRow # map ?sh ?g)) = length ?g"
    by simp
  show ?thesis
    unfolding grid using assms k(2)
    by (auto simp add: cellAt_def row len nat_less_iff simp del: butlast.simps)
qed

lemma exNearGame_fields:
  "descentOffsetRef exNearGame = ROW_V_SPACING - 0.25" "gridRef exNearGame = exGridOne"
  "freezeUntil (powerRef exNearGame) = 0"
  by (simp_all add: exNearGame_def exGame_def)

text \<open>
  C6, as the code has it. For a descent rate that is not negative and moves at most one
  row spacing in 33 ms, and frame times that do not run backwards, the descent offset
  stays within \<open>[0, ROW_V_SPACING]\<close> (the upper end included) across every sequence of
  frames. A frame whose incremented offset exceeds \<open>ROW_V_SPACING\<close> subtracts
  \<open>ROW_V_SPACING\<close> once and inserts one row: the grid keeps its number of rows, row 0
  is a full row of new normal bubbles positioned for the reduced offset, every row
  \<open>r \<ge> 1\<close> is the former row \<open>r - 1\<close> with the \<open>row\<close> fields incremented, and nothing
  else of the state changes. Any other frame changes the offset only.
\<close>

theorem descent_offset_stays_in_bounds:
  assumes "0 \<le> descentSpeed level" and "descentSpeed level * 0.033 \<le> ROW_V_SPACING"
    and "list_all (\<lambda>t. t_last t \<le> t_now t) ts"
    and "0 \<le> descentOffsetRef s" and "descentOffsetRef s \<le> ROW_V_SPACING"
  shows "0 \<le> descentOffsetRef (ticks level w ts s)
    \<and> descentOffsetRef (ticks level w ts s) \<le> ROW_V_SPACING
    \<and> (let off = descentOffsetRef s + tickIncrement level now lastT dateNow s;
            s' = loop_descent level draw now lastT dateNow w s
        in if off > ROW_V_SPACING
           then descentOffsetRef s' = off - ROW_V_SPACING
              \<and> s'\<lparr>gridRef := gridRef s, descentOffsetRef := descentOffsetRef s\<rparr> = s
              \<and> length (gridRef s') = length (gridRef s)
              \<and> (\<forall>c. gridRef s \<noteq> [] \<and> 0 \<le> c \<and> c < computeGridSize w \<longrightarrow>
                    cellAt (gridRef s') 0 c =
                      Some \<lparr>b_id = fst (draw c), b_row = 0, b_col = c,
                            b_x = fst (gridToXY s' 0 c w), b_y = snd (gridToXY s' 0 c w),
                            b_color = snd (draw c), b_kind = Normal, b_stationary = True\<rparr>)
              \<and> (\<forall>r c. 1 \<le> r \<and> r < int (length (gridRef s)) \<longrightarrow>
                    cellAt (gridRef s') r c =
                      map_option (\<lambda>b. b\<lparr>b_row := b_row b + 1\<rparr>) (cellAt (gridRef s) (r - 1) c))
           else s' = s\<lparr>descentOffsetRef := off\<rparr>)"
proof -
  let ?off = "descentOffsetRef s + tickIncrement level now lastT dateNow s"
  let ?s' = "loop_descent level draw now lastT dateNow w s"
  let ?t = "s\<lparr>descentOffsetRef := ?off - ROW_V_SPACING\<rparr>"
  have bounds: "0 \<le> descentOffsetRef (ticks level w ts s)
      \<and> descentOffsetRef (ticks level w ts s) \<le> ROW_V_SPACING"
    using assms by (rule ticks_keep_bounds)
  have frame: "if ?off > ROW_V_SPACING
           then descentOffsetRef ?s' = ?off - ROW_V_SPACING
              \<and> ?s'\<lparr>gridRef := gridRef s, descentOffsetRef := descentOffsetRef s\<rparr> = s
              \<and> length (gridRef ?s') = length (gridRef s)
              \<and> (\<forall>c. gridRef s \<noteq> [] \<and> 0 \<le> c \<and> c < computeGridSize w \<longrightarrow>
                    cellAt (gridRef ?s') 0 c =
                      Some \<lparr>b_id = fst (draw c), b_row = 0, b_col = c,
                            b_x = fst (gridToXY ?s' 0 c w), b_y = snd (gridToXY ?s' 0 c w),
                            b_color = snd (draw c), b_kind = Normal, b_stationary = True\<rparr>)
              \<and> (\<forall>r c. 1 \<le> r \<and> r < int (length (gridRef s)) \<longrightarrow>
                    cellAt (gridRef ?s') r c =
                      map_option (\<lambda>b. b\<lparr>b_row := b_row b + 1\<rparr>) (cellAt (gridRef s) (r - 1) c))
           else ?s' = s\<lparr>descentOffsetRef := ?off\<rparr>"
  proof (cases "?off > ROW_V_SPACING")
    case False
    then show ?thesis by (simp add: loop_descent_unfold Let_def)
  next
    case True
    then have s': "?s' = addNewDescendingRow draw w ?t"
      by (simp add: loop_descent_unfold Let_def)
    have off: "descentOffsetRef ?s' = ?off - ROW_V_SPACING"
      by (simp add: s' descentOffset_addNewDescendingRow)
    have rest: "?s'\<lparr>gridRef := gridRef s, descentOffsetRef := descentOffsetRef s\<rparr> = s"
      by (simp add: s' addNewDescendingRow_fields)
    have len: "length (gridRef ?s') = length (gridRef s)"
      by (simp add: s' addNewDescendingRow_def Let_def)
    have xy: "gridToXY ?s' 0 c w = gridToXY ?t 0 c w" for c
      by (rule gridToXY_offset) (simp add: off)
    have top: "cellAt (gridRef ?s') 0 c =
        Some \<lparr>b_id = fst (draw c), b_row = 0, b_col = c,
              b_x = fst (gridToXY ?s' 0 c w), b_y = snd (gridToXY ?s' 0 c w),
              b_color = snd (draw c), b_kind = Normal, b_stationary = True\<rparr>"
      if "gridRef s \<noteq> []" "0 \<le> c" "c < computeGridSize w" for c
      unfolding xy unfolding s' using that by (intro addNewDescendingRow_top) simp_all
    have below: "cellAt (gridRef ?s') r c =
        map_option (\<lambda>b. b\<lparr>b_row := b_row b + 1\<rparr>) (cellAt (gridRef s) (r - 1) c)"
      if "1 \<le> r" "r < int (length (gridRef s))" for r c
      unfolding s' using addNewDescendingRow_below [of r ?t draw w c] that by simp
    show ?thesis
      using True off rest len top below by simp
  qed
  show ?thesis
    using bounds frame by (simp add: Let_def)
qed

text \<open>
  The frame of the example crosses the threshold: from a quarter of a pixel below it,
  20 px/s over 25 ms give half a pixel, so the offset becomes 0.25, a new red bubble
  stands at row 0 and the bubble that was there is at row 1.
\<close>

theorem descent_offset_stays_in_bounds_witness:
  "0 \<le> descentSpeed stepLevel \<and> descentSpeed stepLevel * 0.033 \<le> ROW_V_SPACING
   \<and> list_all (\<lambda>t. t_last t \<le> t_now t) exCrossTicks
   \<and> 0 \<le> descentOffsetRef exNearGame \<and> descentOffsetRef exNearGame \<le> ROW_V_SPACING
   \<and> descentOffsetRef exNearGame + tickIncrement stepLevel 25 0 0 exNearGame > ROW_V_SPACING
   \<and> descentOffsetRef (loop_descent stepLevel exDraw 25 0 0 256 exNearGame) = 0.25
   \<and> length (gridRef (loop_descent stepLevel exDraw 25 0 0 256 exNearGame)) = 18
   \<and> cellAt (gridRef (loop_descent stepLevel exDraw 25 0 0 256 exNearGame)) 0 0
       = Some \<lparr>b_id = [], b_row = 0, b_col = 0, b_x = 16, b_y = 15.75,
               b_color = Red, b_kind = Normal, b_stationary = True\<rparr>
   \<and> cellAt (gridRef (loop_descent stepLevel exDraw 25 0 0 256 exNearGame)) 1 0
       = Some ((exBubble ROW_V_SPACING 0 0 Red Normal)\<lparr>b_row := 1\<rparr>)
   \<and> 0 \<le> descentOffsetRef (ticks stepLevel 256 exCrossTicks exNearGame)
   \<and> descentOffsetRef (ticks stepLevel 256 exCrossTicks exNearGame) \<le> ROW_V_SPACING"
proof -
  let ?s' = "loop_descent stepLevel exDraw 25 0 0 256 exNearGame"
  have hyps: "0 \<le> descentSpeed stepLevel" "descentSpeed stepLevel * 0.033 \<le> ROW_V_SPACING"
    "list_all (\<lambda>t. t_last t \<le> t_now t) exCrossTicks"
    "0 \<le> descentOffsetRef exNearGame" "descentOffsetRef exNearGame \<le> ROW_V_SPACING"
    using ROW_V_SPACING_bounds(1) by (simp_all add: stepLevel_def exCrossTicks_def exNearGame_fields)
  have inc: "tickIncrement stepLevel 25 0 0 exNearGame = 0.5"
    by (simp add: tickIncrement_def stepLevel_def exNearGame_fields)
  have cross: "descentOffsetRef exNearGame + tickIncrement stepLevel 25 0 0 exNearGame > ROW_V_SPACING"
    by (simp add: inc exNearGame_fields)
  have cols: "computeGridSize 256 = 8"
    by code_simp
  have grid: "gridRef exNearGame \<noteq> []" "length (gridRef exNearGame) = 18"
    by (simp_all add: exNearGame_fields exGridOne_def)
  have old: "cellAt (gridRef exNearGame) 0 0 = Some (exBubble ROW_V_SPACING 0 0 Red Normal)"
    by (simp add: exNearGame_fields exGridOne_def cellAt_def)
  from descent_offset_stays_in_bounds [OF hyps, where w = 256 and draw = exDraw and now = 25
      and lastT = 0 and dateNow = 0] cross
  have bounds: "0 \<le> descentOffsetRef (ticks stepLevel 256 exCrossTicks exNearGame)"
      "descentOffsetRef (ticks stepLevel 256 exCrossTicks exNearGame) \<le> ROW_V_SPACING"
    and off: "descentOffsetRef ?s'
        = descentOffsetRef exNearGame + tickIncrement stepLevel 25 0 0 exNearGame - ROW_V_SPACING"
    and len: "length (gridRef ?s') = length (gridRef exNearGame)"
    and top: "\<And>c. gridRef exNearGame \<noteq> [] \<and> 0 \<le> c \<and> c < computeGridSize 256 \<Longrightarrow>
        cellAt (gridRef ?s') 0 c =
          Some \<lparr>b_id = fst (exDraw c), b_row = 0, b_col = c,
                b_x = fst (gridToXY ?s' 0 c 256), b_y = snd (gridToXY ?s' 0 c 256),
                b_color = snd (exDraw c), b_kind = Normal, b_stationary = True\<rparr>"
    and below: "\<And>r c. 1 \<le> r \<and> r < int (length (gridRef exNearGame)) \<Longrightarrow>
        cellAt (gridRef ?s') r c =
          map_option (\<lambda>b. b\<lparr>b_row := b_row b + 1\<rparr>) (cellAt (gridRef exNearGame) (r - 1) c)"
    by (simp_all add: Let_def)
  have off': "descentOffsetRef ?s' = 0.25"
    by (simp add: off inc exNearGame_fields)
  have top0: "cellAt (gridRef ?s') 0 0
       = Some \<lparr>b_id = [], b_row = 0, b_col = 0, b_x = 16, b_y = 15.75,
               b_color = Red, b_kind = Normal, b_stationary = True\<rparr>"
    using top [of 0] grid(1) cols
    by (simp add: exDraw_def gridToXY_def off' Let_def jsRem_def BUBBLE_RADIUS_def)
  have below0: "cellAt (gridRef ?s') 1 0 = Some ((exBubble ROW_V_SPACING 0 0 Red Normal)\<lparr>b_row := 1\<rparr>)"
    using below [of 1 0] grid(2) old by (simp add: exBubble_def)
  show ?thesis
    using hyps cross off' len grid(2) top0 below0 bounds by simp
qed

text \<open>
  The claim as stated fails: at 2000 px/s one frame of 33 ms leaves the offset above
  the spacing after the single subtraction; from a quarter of a pixel below the
  spacing, 10 px/s over 25 ms land on the spacing, which is not reset, since the test
  is a strict \<open>>\<close>; and a frame time 5 ms before the previous one makes the offset
  negative.
\<close>

theorem descent_offset_counterexample:
  "\<not> descentOffsetRef (loop_descent fastLevel exDraw 33 0 0 256 (exGame exGridOne)) < ROW_V_SPACING
   \<and> (descentOffsetRef exNearGame < ROW_V_SPACING
      \<and> \<not> descentOffsetRef (loop_descent exLevel exDraw 25 0 0 256 exNearGame) < ROW_V_SPACING)
   \<and> \<not> 0 \<le> descentOffsetRef (loop_descent exLevel exDraw 995 1000 0 256 (exGame exGridOne))"
proof -
  have a: "tickIncrement fastLevel 33 0 0 (exGame exGridOne) = 66"
    by (simp add: tickIncrement_def fastLevel_def exGame_def)
  have b: "tickIncrement exLevel 25 0 0 exNearGame = 0.25"
    by (simp add: tickIncrement_def exLevel_def exNearGame_fields)
  have c: "tickIncrement exLevel 995 1000 0 (exGame exGridOne) = - (1 / 20)"
    by (simp add: tickIncrement_def exLevel_def exGame_def)
  have off: "descentOffsetRef (exGame exGridOne) = 0"
    by (simp add: exGame_def)
  show ?thesis
    using ROW_V_SPACING_bounds
    by (simp add: loop_descent_offset a b c off exNearGame_fields Let_def)
qed

text \<open>
  Every frame that changes the descent offset without inserting a row breaks the
  invariant of the cached positions, as soon as the grid holds a bubble.
\<close>

lemma tick_breaks_cache:
  assumes "cachedXY s w" and "cellAt (gridRef s) r c = Some b"
    and "tickIncrement level now lastT dateNow s \<noteq> 0"
    and "\<not> descentOffsetRef s + tickIncrement level now lastT dateNow s > ROW_V_SPACING"
  shows "\<not> cachedXY (loop_descent level draw now lastT dateNow w s) w"
proof -
  let ?s' = "s\<lparr>descentOffsetRef := descentOffsetRef s + tickIncrement level now lastT dateNow s\<rparr>"
  have s': "loop_descent level draw now lastT dateNow w s = ?s'"
    using assms(4) by (simp add: loop_descent_unfold Let_def)
  from assms(2) have inr: "nat r < length (gridRef s)" "nat c < length (gridRef s ! nat r)"
    and b: "gridRef s ! nat r ! nat c = Some b"
    by (auto simp: cellAt_def split: if_splits)
  then have mem: "Some b \<in> set (gridRef s ! nat r)" "gridRef s ! nat r \<in> set (gridRef s)"
    by (metis nth_mem)+
  have "case Some b of None \<Rightarrow> True
      | Some b' \<Rightarrow> (b_x b', b_y b') = gridToXY s (b_row b') (b_col b') w"
    using assms(1) mem unfolding cachedXY_def list_all_iff by blast
  then have ok: "(b_x b, b_y b) = gridToXY s (b_row b) (b_col b) w"
    by simp
  have neg: "(b_x b, b_y b) \<noteq> gridToXY ?s' (b_row b) (b_col b) w"
    using ok assms(3) by (simp add: gridToXY_def Let_def)
  show ?thesis
    unfolding s' cachedXY_def list_all_iff
  proof
    assume "\<forall>row \<in> set (gridRef ?s'). \<forall>slot \<in> set row.
      case slot of None \<Rightarrow> True
      | Some b' \<Rightarrow> (b_x b', b_y b') = gridToXY ?s' (b_row b') (b_col b') w"
    then have "\<forall>slot \<in> set (gridRef s ! nat r).
      case slot of None \<Rightarrow> True
      | Some b' \<Rightarrow> (b_x b', b_y b') = gridToXY ?s' (b_row b') (b_col b') w"
      using mem(2) by simp
    from this [rule_format, OF mem(1)] neg show False
      by simp
  qed
qed

text \<open>
  C1 fails on the code: the cached position is written when a bubble is created or
  placed and never again. In a grid that holds one bubble at its \<open>gridToXY\<close> position,
  one frame of 33 ms at 10 px/s advances the descent offset to 0.33 and leaves the
  cached \<open>y\<close> where it was.
\<close>

theorem cached_position_stale_after_tick:
  "cachedXY (exGame exGridOne) 256
   \<and> \<not> cachedXY (loop_descent exLevel exDraw 33 0 0 256 (exGame exGridOne)) 256"
proof -
  have before: "cachedXY (exGame exGridOne) 256"
    by (simp add: cachedXY_def exGame_def exGridOne_def exBubble_def gridToXY_def Let_def
        list_all_iff)
  have V: "\<not> 33 / 100 > ROW_V_SPACING"
    using ROW_V_SPACING_bounds(1) by simp
  have after: "loop_descent exLevel exDraw 33 0 0 256 (exGame exGridOne)
      = (exGame exGridOne)\<lparr>descentOffsetRef := 33 / 100\<rparr>"
    using V by (simp add: loop_descent_def exLevel_def exGame_def Let_def)
  have "\<not> cachedXY ((exGame exGridOne)\<lparr>descentOffsetRef := 33 / 100\<rparr>) 256"
    by (simp add: cachedXY_def exGame_def exGridOne_def exBubble_def gridToXY_def Let_def
        list_all_iff)
  with before after show ?thesis by simp
qed


subsection \<open>Removal of disconnected bubbles\<close>


lemma anchored_occupied: "anchored g w cell \<Longrightarrow> cellAt g (fst cell) (snd cell) \<noteq> None"
proof (induction rule: anchored.induct)
  case (top c)
  then show ?case by simp
next
  case (link r c rr cc b)
  have "cellAt g rr cc = Some b"
    using neighbors_cell [OF link(2)] by simp
  then show ?case by simp
qed

lemma rdPushes_iff:
  "(rr, cc) \<in> set (rdPushes g w visited cur) \<longleftrightarrow>
     (\<exists>b. (rr, cc, Some b) \<in> set (neighbors g (fst cur) (snd cur) w)
        \<and> (rr, cc) \<notin> visited \<and> b_color b \<noteq> Gray)"
  by (force simp: rdPushes_def split: option.splits)

lemma rdLoop_sound:
  "(\<And>v. v \<in> visited \<Longrightarrow> anchored g w v) \<Longrightarrow> (\<And>v. v \<in> set stack \<Longrightarrow> anchored g w v)
    \<Longrightarrow> v \<in> rdLoop g w visited stack \<Longrightarrow> anchored g w v"
proof (induction g w visited stack rule: rdLoop.induct)
  case (1 g w visited)
  then show ?case by simp
next
  case (2 g w visited cur stack)
  have cur: "anchored g w cur" using "2.prems"(2) by simp
  show ?case
  proof (cases "cur \<in> visited")
    case True
    with 2 show ?thesis by simp
  next
    case False
    show ?thesis
    proof (cases "cellAt g (fst cur) (snd cur)")
      case None
      show ?thesis
      proof (rule "2.IH"(2) [OF False None])
        show "anchored g w v" if "v \<in> insert cur visited" for v
          using that cur "2.prems"(1) [of v] by auto
        show "anchored g w v" if "v \<in> set stack" for v
          using that "2.prems"(2) [of v] by auto
        show "v \<in> rdLoop g w (insert cur visited) stack"
          using "2.prems"(3) False None by simp
      qed
    next
      case (Some b)
      have pushed: "anchored g w p" if "p \<in> set (rdPushes g w (insert cur visited) cur)" for p
      proof -
        obtain rr cc where p: "p = (rr, cc)" by (cases p)
        with that obtain b' where "(rr, cc, Some b') \<in> set (neighbors g (fst cur) (snd cur) w)"
          and "b_color b' \<noteq> Gray"
          by (auto simp: rdPushes_iff)
        with cur show ?thesis
          unfolding p by (cases cur) (auto intro: anchored.link)
      qed
      show ?thesis
      proof (rule "2.IH"(3) [OF False Some])
        show "anchored g w v" if "v \<in> insert cur visited" for v
          using that cur "2.prems"(1) [of v] by auto
        show "anchored g w v"
          if "v \<in> set (rev (rdPushes g w (insert cur visited) cur) @ stack)" for v
          using that pushed [of v] "2.prems"(2) [of v] by auto
        show "v \<in> rdLoop g w (insert cur visited) (rev (rdPushes g w (insert cur visited) cur) @ stack)"
          using "2.prems"(3) False Some by simp
      qed
    qed
  qed
qed

lemma closedUnderI:
  assumes "\<And>r c rr cc b. (r, c) \<in> V \<Longrightarrow> cellAt g r c \<noteq> None \<Longrightarrow>
    (rr, cc, Some b) \<in> set (neighbors g r c w) \<Longrightarrow> b_color b \<noteq> Gray \<Longrightarrow> (rr, cc) \<in> V \<union> S"
  shows "closedUnder g w V S"
  unfolding closedUnder_def using assms by blast

lemma closedUnderD:
  assumes "closedUnder g w V S" and "(r, c) \<in> V" and "cellAt g r c \<noteq> None"
    and "(rr, cc, Some b) \<in> set (neighbors g r c w)" and "b_color b \<noteq> Gray"
  shows "(rr, cc) \<in> V \<union> S"
  using assms unfolding closedUnder_def by blast

lemma rdLoop_complete:
  "closedUnder g w visited (set stack) \<Longrightarrow>
     visited \<union> set stack \<subseteq> rdLoop g w visited stack
     \<and> closedUnder g w (rdLoop g w visited stack) {}"
proof (induction g w visited stack rule: rdLoop.induct)
  case (1 g w visited)
  then show ?case by simp
next
  case (2 g w visited cur stack)
  note closed = "2.prems"
  show ?case
  proof (cases "cur \<in> visited")
    case True
    have "closedUnder g w visited (set stack)"
    proof (rule closedUnderI)
      fix r c rr cc b
      assume "(r, c) \<in> visited" "cellAt g r c \<noteq> None"
        "(rr, cc, Some b) \<in> set (neighbors g r c w)" "b_color b \<noteq> Gray"
      from closedUnderD [OF closed this] True show "(rr, cc) \<in> visited \<union> set stack"
        by auto
    qed
    from "2.IH"(1) [OF True this] True show ?thesis by auto
  next
    case False
    show ?thesis
    proof (cases "cellAt g (fst cur) (snd cur)")
      case None
      have "closedUnder g w (insert cur visited) (set stack)"
      proof (rule closedUnderI)
        fix r c rr cc b
        assume rc: "(r, c) \<in> insert cur visited" and occ: "cellAt g r c \<noteq> None"
          and nb: "(rr, cc, Some b) \<in> set (neighbors g r c w)" "b_color b \<noteq> Gray"
        from occ None have "(r, c) \<noteq> cur" by auto
        with rc have "(r, c) \<in> visited" by simp
        from closedUnderD [OF closed this occ nb]
        show "(rr, cc) \<in> insert cur visited \<union> set stack" by auto
      qed
      from "2.IH"(2) [OF False None this] False None show ?thesis by auto
    next
      case (Some b)
      let ?new = "rev (rdPushes g w (insert cur visited) cur) @ stack"
      have "closedUnder g w (insert cur visited) (set ?new)"
      proof (rule closedUnderI)
        fix r c rr cc b'
        assume rc: "(r, c) \<in> insert cur visited" and occ: "cellAt g r c \<noteq> None"
          and nb: "(rr, cc, Some b') \<in> set (neighbors g r c w)" and col: "b_color b' \<noteq> Gray"
        show "(rr, cc) \<in> insert cur visited \<union> set ?new"
        proof (cases "(r, c) = cur")
          case True
          then have "(rr, cc) \<in> insert cur visited
              \<or> (rr, cc) \<in> set (rdPushes g w (insert cur visited) cur)"
            using nb col by (auto simp: rdPushes_iff)
          then show ?thesis by auto
        next
          case False
          with rc have "(r, c) \<in> visited" by simp
          from closedUnderD [OF closed this occ nb col] show ?thesis by auto
        qed
      qed
      from "2.IH"(3) [OF False Some this] False Some show ?thesis by auto
    qed
  qed
qed

lemma anchorStack_set:
  "set (anchorStack g w) = {(0, c) | c. 0 \<le> c \<and> c < computeGridSize w \<and> cellAt g 0 c \<noteq> None}"
  by (auto simp: anchorStack_def)

lemma rdLoop_anchored:
  "rdLoop g w {} (anchorStack g w) = {cell. anchored g w cell}"
proof (intro set_eqI iffI)
  fix v
  assume "v \<in> rdLoop g w {} (anchorStack g w)"
  then have "anchored g w v"
  proof (rule rdLoop_sound [rotated 2])
    show "anchored g w u" if "u \<in> {}" for u using that by simp
    show "anchored g w u" if "u \<in> set (anchorStack g w)" for u
      using that by (auto simp: anchorStack_set intro: anchored.top)
  qed
  then show "v \<in> {cell. anchored g w cell}" by simp
next
  fix v
  let ?R = "rdLoop g w {} (anchorStack g w)"
  have "closedUnder g w {} (set (anchorStack g w))"
    by (simp add: closedUnder_def)
  from rdLoop_complete [OF this]
  have start: "set (anchorStack g w) \<subseteq> ?R" and closed: "closedUnder g w ?R {}"
    by simp_all
  assume "v \<in> {cell. anchored g w cell}"
  then have "anchored g w v" by simp
  then show "v \<in> ?R"
  proof (induction rule: anchored.induct)
    case (top c)
    then have "(0, c) \<in> set (anchorStack g w)" by (simp add: anchorStack_set)
    with start show ?case by auto
  next
    case (link r c rr cc b)
    from anchored_occupied [OF link(1)] have "cellAt g r c \<noteq> None" by simp
    from closedUnderD [OF closed link.IH this link(2,3)] show ?case by simp
  qed
qed



lemma sweepRow_Cons:
  "fst (sweepRow V r c (slot # slots)) =
     (if drops V r c slot then None else slot) # fst (sweepRow V r (c + 1) slots)"
  "snd (sweepRow V r c (slot # slots)) =
     snd (sweepRow V r (c + 1) slots) + (if drops V r c slot then 1 else 0)"
  by (simp_all add: Let_def case_prod_unfold)

lemma sweepRows_Cons:
  "fst (sweepRows V r (row # rows)) = fst (sweepRow V r 0 row) # fst (sweepRows V (r + 1) rows)"
  "snd (sweepRows V r (row # rows)) = snd (sweepRow V r 0 row) + snd (sweepRows V (r + 1) rows)"
  by (simp_all add: Let_def case_prod_unfold)

lemma sweepRow_length: "length (fst (sweepRow V r c slots)) = length slots"
  by (induction slots arbitrary: c) (simp_all add: sweepRow_Cons del: sweepRow.simps(2))

lemma sweepRow_nth:
  "i < length slots \<Longrightarrow>
     fst (sweepRow V r c slots) ! i = (if drops V r (c + int i) (slots ! i) then None else slots ! i)"
proof (induction slots arbitrary: c i)
  case Nil
  then show ?case by simp
next
  case (Cons slot slots)
  show ?case
  proof (cases i)
    case 0
    then show ?thesis by (simp add: sweepRow_Cons del: sweepRow.simps(2))
  next
    case (Suc j)
    with Cons.prems have "j < length slots" by simp
    from Cons.IH [OF this, of "c + 1"] Suc show ?thesis
      by (simp add: sweepRow_Cons add.assoc del: sweepRow.simps(2))
  qed
qed

lemma sweepRow_count:
  "snd (sweepRow V r c slots) = occupiedIn slots - occupiedIn (fst (sweepRow V r c slots))"
proof (induction slots arbitrary: c)
  case Nil
  show ?case by (simp add: occupiedIn_def)
next
  case (Cons slot slots)
  from Cons [of "c + 1"] show ?case
    by (cases slot) (simp_all add: sweepRow_Cons occupiedIn_def drops_def del: sweepRow.simps(2))
qed

lemma sweepRows_length: "length (fst (sweepRows V r g)) = length g"
  by (induction g arbitrary: r) (simp_all add: sweepRows_Cons del: sweepRows.simps(2))

lemma sweepRows_nth:
  "i < length g \<Longrightarrow> fst (sweepRows V r g) ! i = fst (sweepRow V (r + int i) 0 (g ! i))"
proof (induction g arbitrary: r i)
  case Nil
  then show ?case by simp
next
  case (Cons row rows)
  show ?case
  proof (cases i)
    case 0
    then show ?thesis by (simp add: sweepRows_Cons del: sweepRows.simps(2))
  next
    case (Suc j)
    with Cons.prems have "j < length rows" by simp
    from Cons.IH [OF this, of "r + 1"] Suc show ?thesis
      by (simp add: sweepRows_Cons add.assoc del: sweepRows.simps(2))
  qed
qed

lemma countOccupied_Cons: "countOccupied (row # rows) = occupiedIn row + countOccupied rows"
  by (simp add: countOccupied_def occupiedIn_def)

lemma sweepRows_count:
  "snd (sweepRows V r g) = countOccupied g - countOccupied (fst (sweepRows V r g))"
proof (induction g arbitrary: r)
  case Nil
  show ?case by (simp add: countOccupied_def)
next
  case (Cons row rows)
  from Cons [of "r + 1"] sweepRow_count [of V r 0 row] show ?case
    by (simp add: sweepRows_Cons countOccupied_Cons del: sweepRows.simps(2))
qed

lemma cellAt_sweepRows:
  "cellAt (fst (sweepRows V 0 g)) r c = (if drops V r c (cellAt g r c) then None else cellAt g r c)"
proof (cases "0 \<le> r \<and> r < int (length g)")
  case False
  then show ?thesis by (auto simp: cellAt_def sweepRows_length drops_def)
next
  case True
  then have i: "nat r < length g" by auto
  have row: "fst (sweepRows V 0 g) ! nat r = fst (sweepRow V r 0 (g ! nat r))"
    using sweepRows_nth [OF i, of V 0] True by simp
  show ?thesis
  proof (cases "0 \<le> c \<and> c < int (length (g ! nat r))")
    case False
    then show ?thesis
      using True by (auto simp: cellAt_def sweepRows_length row sweepRow_length drops_def)
  next
    case c: True
    then have j: "nat c < length (g ! nat r)" by auto
    from sweepRow_nth [OF j, of V r 0] True c show ?thesis
      by (simp add: cellAt_def sweepRows_length row sweepRow_length)
  qed
qed

text \<open>
  C5. \<open>removeDisconnected\<close> clears exactly the cells that hold a non-gray bubble that is
  not anchored, and leaves every other cell as it was; a gray bubble is never cleared;
  the returned count is the number of bubbles the grid lost.
\<close>

theorem removeDisconnected_removes_unanchored:
  "(\<forall>r c. cellAt (gridRef (fst (removeDisconnected muted w s))) r c =
      (case cellAt (gridRef s) r c of
         None \<Rightarrow> None
       | Some b \<Rightarrow> if b_color b \<noteq> Gray \<and> \<not> anchored (gridRef s) w (r, c) then None else Some b))
   \<and> (\<forall>r c b. cellAt (gridRef s) r c = Some b \<and> b_color b = Gray
        \<longrightarrow> cellAt (gridRef (fst (removeDisconnected muted w s))) r c = Some b)
   \<and> snd (removeDisconnected muted w s)
       = countOccupied (gridRef s) - countOccupied (gridRef (fst (removeDisconnected muted w s)))"
proof -
  let ?V = "rdLoop (gridRef s) w {} (anchorStack (gridRef s) w)"
  have grid: "gridRef (fst (removeDisconnected muted w s)) = fst (sweepRows ?V 0 (gridRef s))"
    and count: "snd (removeDisconnected muted w s) = snd (sweepRows ?V 0 (gridRef s))"
    by (simp_all add: removeDisconnected_def Let_def split: prod.splits)
  have cell: "cellAt (gridRef (fst (removeDisconnected muted w s))) r c =
      (case cellAt (gridRef s) r c of
         None \<Rightarrow> None
       | Some b \<Rightarrow> if b_color b \<noteq> Gray \<and> \<not> anchored (gridRef s) w (r, c) then None else Some b)"
    for r c
    unfolding grid cellAt_sweepRows rdLoop_anchored
    by (simp add: drops_def split: option.splits)
  have "snd (removeDisconnected muted w s)
      = countOccupied (gridRef s) - countOccupied (gridRef (fst (removeDisconnected muted w s)))"
    unfolding grid count by (rule sweepRows_count)
  with cell show ?thesis by simp
qed

lemma exFloat_eval:
  "cellAt (gridRef (fst (removeDisconnected False 256 (exGame (exGridFloat v))))) 3 3 = None"
  "map_option b_color (cellAt (gridRef (fst (removeDisconnected False 256 (exGame (exGridFloat v))))) 1 0) = Some Blue"
  "snd (removeDisconnected False 256 (exGame (exGridFloat v))) = 1"
  by code_simp+


lemma exGridFloat_cells:
  "cellAt (exGridFloat v) 3 3 = Some (exBubble v 3 3 Green Normal)"
  "cellAt (exGridFloat v) 4 4 = Some (exBubble v 4 4 Gray Normal)"
  by (simp_all add: cellAt_def exGridFloat_def)

theorem removeDisconnected_removes_unanchored_witness:
  "cellAt (gridRef (fst (removeDisconnected False 256 (exGame (exGridFloat ROW_V_SPACING))))) 3 3 = None
   \<and> \<not> anchored (exGridFloat ROW_V_SPACING) 256 (3, 3)
   \<and> cellAt (gridRef (fst (removeDisconnected False 256 (exGame (exGridFloat ROW_V_SPACING))))) 4 4
       = Some (exBubble ROW_V_SPACING 4 4 Gray Normal)
   \<and> snd (removeDisconnected False 256 (exGame (exGridFloat ROW_V_SPACING))) = 1"
proof -
  let ?s = "exGame (exGridFloat ROW_V_SPACING)"
  have g: "gridRef ?s = exGridFloat ROW_V_SPACING"
    by (simp add: exGame_def)
  note inst = removeDisconnected_removes_unanchored [of False 256 ?s, unfolded g]
  from inst have c33: "cellAt (gridRef (fst (removeDisconnected False 256 ?s))) 3 3 =
      (if \<not> anchored (exGridFloat ROW_V_SPACING) 256 (3, 3) then None
       else Some (exBubble ROW_V_SPACING 3 3 Green Normal))"
    by (simp add: exGridFloat_cells exBubble_def)
  from inst have c44: "cellAt (gridRef (fst (removeDisconnected False 256 ?s))) 4 4
      = Some (exBubble ROW_V_SPACING 4 4 Gray Normal)"
    by (simp add: exGridFloat_cells exBubble_def)
  from c33 exFloat_eval(1) [of ROW_V_SPACING]
  have "\<not> anchored (exGridFloat ROW_V_SPACING) 256 (3, 3)"
    by (simp split: if_splits)
  with exFloat_eval(1,3) [of ROW_V_SPACING] c44 show ?thesis by simp
qed

subsection \<open>Snapping and resolution\<close>

lemma placeBubbleAt_eq:
  "placeBubbleAt r0 c0 b w s =
     (if freeAt (gridRef s) w (r0, c0)
      then Some (storeAt s b w (clampCell (gridRef s) w (r0, c0))) else None)"
  by (simp add: placeBubbleAt_def freeAt_def clampCell_def storeAt_def storeXY_def Let_def
      case_prod_unfold)

lemma snapLoop_find:
  "snapLoop cands b w s =
     map_option (\<lambda>cand. storeAt s b w (clampCell (gridRef s) w cand))
       (find (freeAt (gridRef s) w) cands)"
  by (induction cands) (simp_all add: placeBubbleAt_eq)

lemma trySnapAndResolve_find:
  "trySnapAndResolve muted dateNow b w s =
     (case find (freeAt (gridRef s) w) (snapCandidates (xyToGridGuess s (b_x b) (b_y b) w)) of
        None \<Rightarrow> s
      | Some cand \<Rightarrow>
          resolvePlaced muted dateNow (snd (storeAt s b w (clampCell (gridRef s) w cand))) w
            (fst (storeAt s b w (clampCell (gridRef s) w cand))))"
  by (simp add: trySnapAndResolve_def Let_def snapLoop_find case_prod_unfold split: option.splits)

lemma computeGridSize_bounds: "8 \<le> computeGridSize w" "computeGridSize w \<le> 12"
  by (simp_all add: computeGridSize_def MAX_COLS_def)

lemma clampCell_in_bounds:
  assumes "grid \<noteq> []"
  shows "0 \<le> fst (clampCell grid w cand)" "fst (clampCell grid w cand) < int (length grid)"
    "0 \<le> snd (clampCell grid w cand)"
    "snd (clampCell grid w cand)
       < computeGridSize w - (if jsRem (fst (clampCell grid w cand)) 2 = 1 then 1 else 0)"
  using assms computeGridSize_bounds [of w]
  by (auto simp: clampCell_def Let_def)

lemma rect_row_length:
  "rect g w \<Longrightarrow> 0 \<le> r \<Longrightarrow> r < int (length g) \<Longrightarrow> int (length (g ! nat r)) = computeGridSize w"
  by (simp add: rect_def list_all_length)

text \<open>A row insertion keeps the number of rows and the rectangular shape.\<close>

lemma addNewDescendingRow_keeps_shape:
  "length (gridRef (addNewDescendingRow draw w s)) = length (gridRef s)"
  "rect (gridRef s) w \<Longrightarrow> rect (gridRef (addNewDescendingRow draw w s)) w"
proof -
  show "length (gridRef (addNewDescendingRow draw w s)) = length (gridRef s)"
    by (simp add: addNewDescendingRow_def Let_def)
  assume "rect (gridRef s) w"
  moreover have "int (length [0 .. computeGridSize w - 1]) = computeGridSize w"
    using computeGridSize_bounds(1) [of w] by simp
  ultimately show "rect (gridRef (addNewDescendingRow draw w s)) w"
    by (auto simp: addNewDescendingRow_def Let_def rect_def list_all_iff dest!: in_set_butlastD)
qed

lemma length_setCell: "length (setCell g r c v) = length g"
  by (simp add: setCell_def)

lemma length_setCell_row: "length (setCell g r c v ! i) = length (g ! i)"
  by (cases "i < length g") (auto simp: setCell_def nth_list_update)

lemma cellAt_setCell:
  "cellAt (setCell g r c v) r' c' =
     (if r' = r \<and> c' = c \<and> 0 \<le> r \<and> r < int (length g) \<and> 0 \<le> c \<and> c < int (length (g ! nat r))
      then v else cellAt g r' c')"
proof (cases "0 \<le> r \<and> r < int (length g) \<and> 0 \<le> c \<and> c < int (length (g ! nat r))")
  case False
  then show ?thesis by (auto simp: setCell_def)
next
  case True
  then have upd: "setCell g r c v = g[nat r := (g ! nat r)[nat c := v]]"
    by (simp add: setCell_def)
  show ?thesis
  proof (cases "0 \<le> r' \<and> r' < int (length g) \<and> 0 \<le> c' \<and> c' < int (length (g ! nat r'))")
    case False
    then show ?thesis
      using True by (auto simp: cellAt_def length_setCell length_setCell_row)
  next
    case inb: True
    have "nat r' = nat r \<longleftrightarrow> r' = r" "nat c' = nat c \<longleftrightarrow> c' = c"
      using True inb by auto
    then show ?thesis
      using True inb
      by (auto simp: cellAt_def length_setCell length_setCell_row upd nth_list_update)
  qed
qed

lemma removeDisconnected_grid:
  "gridRef (fst (removeDisconnected muted w s))
     = fst (sweepRows (rdLoop (gridRef s) w {} (anchorStack (gridRef s) w)) 0 (gridRef s))"
  by (simp add: removeDisconnected_def Let_def case_prod_unfold)

lemma removeDisconnected_fields:
  "scoreRef (fst (removeDisconnected muted w s)) = scoreRef s"
  "comboChainRef (fst (removeDisconnected muted w s)) = comboChainRef s"
  by (simp_all add: removeDisconnected_def Let_def case_prod_unfold)

lemma removeDisconnected_keeps_None:
  "cellAt (gridRef s) r c = None \<Longrightarrow> cellAt (gridRef (fst (removeDisconnected muted w s))) r c = None"
  by (simp add: removeDisconnected_grid cellAt_sweepRows)

lemma cellAt_out_of_range:
  "\<not> (0 \<le> r \<and> r < int (length g) \<and> 0 \<le> c \<and> c < int (length (g ! nat r))) \<Longrightarrow> cellAt g r c = None"
  by (auto simp: cellAt_def)

lemma cellAt_clearCells:
  "cellAt (clearCells cells g) r c = (if (r, c) \<in> set cells then None else cellAt g r c)"
proof (induction cells arbitrary: g)
  case Nil
  show ?case by (simp add: clearCells_def)
next
  case (Cons cell cells)
  have step: "clearCells (cell # cells) g = clearCells cells (setCell g (fst cell) (snd cell) None)"
    by (simp add: clearCells_def)
  show ?case
    unfolding step Cons.IH
    using cellAt_out_of_range [of "fst cell" g "snd cell"]
    by (cases cell) (auto simp: cellAt_setCell)
qed

lemma floodLoop_distinct:
  "distinct res \<Longrightarrow> set res \<subseteq> visited \<Longrightarrow> distinct (floodLoop g t w visited res stack)"
proof (induction g t w visited res stack rule: floodLoop.induct)
  case (1 g t w visited res)
  then show ?case by simp
next
  case (2 g t w visited res cur stack)
  show ?case
  proof (cases "cur \<in> visited")
    case True
    with 2 show ?thesis by simp
  next
    case False
    show ?thesis
    proof (cases "cellAt g (fst cur) (snd cur)")
      case None
      have "distinct (floodLoop g t w (insert cur visited) res stack)"
        using "2.IH"(2) [OF False None] "2.prems" by auto
      with False None show ?thesis by simp
    next
      case (Some b)
      show ?thesis
      proof (cases "matches t b")
        case True
        have "distinct (res @ [cur])" "set (res @ [cur]) \<subseteq> insert cur visited"
          using "2.prems" False by auto
        from "2.IH"(3) [OF False Some True this] False Some True show ?thesis by simp
      next
        case nomatch: False
        have "distinct (floodLoop g t w (insert cur visited) res stack)"
          using "2.IH"(4) [OF False Some nomatch] "2.prems" by auto
        with False Some nomatch show ?thesis by simp
      qed
    qed
  qed
qed

lemma floodMatch_distinct: "distinct (floodMatch g r c t w)"
  unfolding floodMatch_def by (rule floodLoop_distinct) simp_all

lemma sweepRow_count_nonneg: "0 \<le> snd (sweepRow V r c slots)"
  by (induction slots arbitrary: c) (simp_all add: sweepRow_Cons del: sweepRow.simps(2))

lemma sweepRows_count_nonneg: "0 \<le> snd (sweepRows V r g)"
  by (induction g arbitrary: r)
    (simp_all add: sweepRows_Cons sweepRow_count_nonneg del: sweepRows.simps(2))

lemma removeDisconnected_count_nonneg: "0 \<le> snd (removeDisconnected muted w s)"
  by (simp add: removeDisconnected_def Let_def case_prod_unfold sweepRows_count_nonneg)

lemma resolvePlaced_match:
  assumes "b_kind b \<noteq> Bomb" "b_kind b \<noteq> Freeze" "b_kind b \<noteq> Aim"
  shows "resolvePlaced muted dateNow b w s =
     (let group = floodMatch (gridRef s) (b_row b) (b_col b) (b_color b) w
      in if length group \<ge> 3
         then (let s2 = fst (removeDisconnected muted w (afterMatch muted group s));
                   dropped = snd (removeDisconnected muted w (afterMatch muted group s))
               in if dropped > 0
                  then s2\<lparr>scoreRef := scoreRef s2 + 5 * dropped,
                          emitted := emitted s2 @ [ComboAchieved]\<rparr>
                  else s2)
         else s\<lparr>comboChainRef := 0\<rparr>)"
  using assms by (simp add: resolvePlaced_def afterMatch_def Let_def case_prod_unfold)

lemma storeAt_fields:
  "b_kind (snd (storeAt s b w cell)) = b_kind b"
  "b_color (snd (storeAt s b w cell)) = b_color b"
  "b_row (snd (storeAt s b w cell)) = fst cell"
  "b_col (snd (storeAt s b w cell)) = snd cell"
  "scoreRef (fst (storeAt s b w cell)) = scoreRef s"
  "comboChainRef (fst (storeAt s b w cell)) = comboChainRef s"
  "gridRef (fst (storeAt s b w cell))
     = setCell (gridRef s) (fst cell) (snd cell) (Some (snd (storeAt s b w cell)))"
  by (simp_all add: storeAt_def storeXY_def Let_def)

lemma snapLoop_SomeD:
  assumes "snapLoop cands b w s = Some (s1, b1)"
  obtains cand where "find (freeAt (gridRef s) w) cands = Some cand"
    and "(s1, b1) = storeAt s b w (clampCell (gridRef s) w cand)"
    and "freeAt (gridRef s) w cand"
proof -
  from assms obtain cand where f: "find (freeAt (gridRef s) w) cands = Some cand"
    and st: "(s1, b1) = storeAt s b w (clampCell (gridRef s) w cand)"
    by (auto simp: snapLoop_find)
  from f have "freeAt (gridRef s) w cand"
    by (auto simp: find_Some_iff)
  with f st that show ?thesis by blast
qed

lemma trySnapAndResolve_Some:
  "snapLoop (snapCandidates (xyToGridGuess s (b_x b) (b_y b) w)) b w s = Some (s1, b1)
    \<Longrightarrow> trySnapAndResolve muted dateNow b w s = resolvePlaced muted dateNow b1 w s1"
  by (simp add: trySnapAndResolve_def Let_def)

lemma trySnapAndResolve_None:
  "snapLoop (snapCandidates (xyToGridGuess s (b_x b) (b_y b) w)) b w s = None
    \<Longrightarrow> trySnapAndResolve muted dateNow b w s = s"
  by (simp add: trySnapAndResolve_def Let_def)

text \<open>
  C4. The candidates are the guess, its left and right neighbours, the cells above and
  below it, and its up-left and down-right diagonals, in this order. Every candidate is
  clamped into the grid, never rejected, and the bubble is stored in the first candidate
  whose clamped cell is free: that cell is inside the grid, it was empty, it now holds
  the bubble and no other cell changed before the kind is resolved. When no candidate
  is free the state is returned as it was: nothing is placed and no kind is resolved.
\<close>

theorem snap_places_first_free_candidate:
  assumes "gridRef s \<noteq> []" and "rect (gridRef s) w"
  shows "snapCandidates (r, c) =
      [(r, c), (r, c - 1), (r, c + 1), (r - 1, c), (r + 1, c), (r - 1, c - 1), (r + 1, c + 1)]
    \<and> (case find (freeAt (gridRef s) w) (snapCandidates (xyToGridGuess s (b_x b) (b_y b) w)) of
         None \<Rightarrow>
           snapLoop (snapCandidates (xyToGridGuess s (b_x b) (b_y b) w)) b w s = None
           \<and> trySnapAndResolve muted dateNow b w s = s
       | Some cand \<Rightarrow>
           (let cell = clampCell (gridRef s) w cand; placed = storeAt s b w cell
            in 0 \<le> fst cell \<and> fst cell < int (length (gridRef s)) \<and> 0 \<le> snd cell
               \<and> snd cell < computeGridSize w - (if jsRem (fst cell) 2 = 1 then 1 else 0)
               \<and> cellAt (gridRef s) (fst cell) (snd cell) = None
               \<and> snapLoop (snapCandidates (xyToGridGuess s (b_x b) (b_y b) w)) b w s = Some placed
               \<and> cellAt (gridRef (fst placed)) (fst cell) (snd cell) = Some (snd placed)
               \<and> (\<forall>r' c'. (r', c') \<noteq> cell
                     \<longrightarrow> cellAt (gridRef (fst placed)) r' c' = cellAt (gridRef s) r' c')
               \<and> trySnapAndResolve muted dateNow b w s
                   = resolvePlaced muted dateNow (snd placed) w (fst placed)))"
proof -
  let ?cands = "snapCandidates (xyToGridGuess s (b_x b) (b_y b) w)"
  have list: "snapCandidates (r, c) =
      [(r, c), (r, c - 1), (r, c + 1), (r - 1, c), (r + 1, c), (r - 1, c - 1), (r + 1, c + 1)]"
    by (simp add: snapCandidates_def)
  show ?thesis
  proof (cases "find (freeAt (gridRef s) w) ?cands")
    case None
    then have "snapLoop ?cands b w s = None"
      by (simp add: snapLoop_find)
    with None list trySnapAndResolve_None [of s b w muted dateNow] show ?thesis
      by simp
  next
    case (Some cand)
    let ?cell = "clampCell (gridRef s) w cand"
    let ?placed = "storeAt s b w ?cell"
    note inb = clampCell_in_bounds [OF assms(1), of w cand]
    have free: "cellAt (gridRef s) (fst ?cell) (snd ?cell) = None"
      using Some by (auto simp: find_Some_iff freeAt_def)
    have loop: "snapLoop ?cands b w s = Some ?placed"
      using Some by (simp add: snapLoop_find)
    have len: "int (length (gridRef s ! nat (fst ?cell))) = computeGridSize w"
      using assms(2) inb(1,2) by (rule rect_row_length)
    have col: "snd ?cell < int (length (gridRef s ! nat (fst ?cell)))"
      using inb(4) len by (simp split: if_splits)
    have stored: "cellAt (gridRef (fst ?placed)) (fst ?cell) (snd ?cell) = Some (snd ?placed)"
      using inb(1,2,3) col by (simp add: storeAt_fields cellAt_setCell)
    have others: "cellAt (gridRef (fst ?placed)) r' c' = cellAt (gridRef s) r' c'"
      if "(r', c') \<noteq> ?cell" for r' c'
      using that by (cases ?cell) (auto simp: storeAt_fields cellAt_setCell)
    have res: "trySnapAndResolve muted dateNow b w s
        = resolvePlaced muted dateNow (snd ?placed) w (fst ?placed)"
      using trySnapAndResolve_Some [of s b w "fst ?placed" "snd ?placed" muted dateNow] loop
      by simp
    show ?thesis
      using Some list inb free loop stored others res by (simp add: Let_def)
  qed
qed


lemma storeAt_keeps_bubbles:
  assumes "cellAt (gridRef s) (fst cell) (snd cell) = None" and "cellAt (gridRef s) r c \<noteq> None"
  shows "cellAt (gridRef (fst (storeAt s b w cell))) r c = cellAt (gridRef s) r c"
proof -
  have "(r, c) \<noteq> cell" using assms by auto
  then show ?thesis
    by (cases cell) (auto simp: storeAt_fields cellAt_setCell)
qed

text \<open>
  C7. On a non-empty rectangular grid, for a placed normal or rainbow bubble, the
  flood-matched set has no repeated cell. When it has fewer than 3 cells the grid stays the grid after placement, every
  bubble that was in the grid is still there, and the score is unchanged; when it has 3
  or more, every cell of the set is empty afterwards and the score grows by 10 per
  matched cell and 5 per dropped bubble.
\<close>

theorem small_match_removes_nothing:
  assumes "gridRef s \<noteq> []" and "rect (gridRef s) w"
    and placed: "snapLoop (snapCandidates (xyToGridGuess s (b_x b) (b_y b) w)) b w s = Some (s1, b1)"
    and kind0: "b_kind b = Normal \<or> b_kind b = Rainbow"
  shows "distinct (floodMatch (gridRef s1) (b_row b1) (b_col b1) (b_color b1) w)
    \<and> (length (floodMatch (gridRef s1) (b_row b1) (b_col b1) (b_color b1) w) < 3 \<longrightarrow>
         gridRef (trySnapAndResolve muted dateNow b w s) = gridRef s1
         \<and> scoreRef (trySnapAndResolve muted dateNow b w s) = scoreRef s
         \<and> (\<forall>r c. cellAt (gridRef s) r c \<noteq> None \<longrightarrow>
               cellAt (gridRef (trySnapAndResolve muted dateNow b w s)) r c = cellAt (gridRef s) r c))
    \<and> (3 \<le> length (floodMatch (gridRef s1) (b_row b1) (b_col b1) (b_color b1) w) \<longrightarrow>
         (\<forall>cell \<in> set (floodMatch (gridRef s1) (b_row b1) (b_col b1) (b_color b1) w).
             cellAt (gridRef (trySnapAndResolve muted dateNow b w s)) (fst cell) (snd cell) = None)
         \<and> scoreRef (trySnapAndResolve muted dateNow b w s)
             = scoreRef s + 10 * int (length (floodMatch (gridRef s1) (b_row b1) (b_col b1) (b_color b1) w))
               + 5 * snd (removeDisconnected muted w
                   (afterMatch muted (floodMatch (gridRef s1) (b_row b1) (b_col b1) (b_color b1) w) s1)))"
proof -
  let ?group = "floodMatch (gridRef s1) (b_row b1) (b_col b1) (b_color b1) w"
  let ?res = "trySnapAndResolve muted dateNow b w s"
  let ?after = "afterMatch muted ?group s1"
  from placed obtain cand where st: "(s1, b1) = storeAt s b w (clampCell (gridRef s) w cand)"
    and free: "freeAt (gridRef s) w cand"
    by (rule snapLoop_SomeD)
  let ?cell = "clampCell (gridRef s) w cand"
  have s1: "s1 = fst (storeAt s b w ?cell)" and b1: "b1 = snd (storeAt s b w ?cell)"
    using st by (simp_all add: prod_eq_iff)
  have kind: "b_kind b1 \<noteq> Bomb" "b_kind b1 \<noteq> Freeze" "b_kind b1 \<noteq> Aim"
    using kind0 by (auto simp: b1 storeAt_fields)
  have score1: "scoreRef s1 = scoreRef s"
    by (simp add: s1 storeAt_fields)
  have res: "?res = resolvePlaced muted dateNow b1 w s1"
    using placed by (rule trySnapAndResolve_Some)
  note unfold = resolvePlaced_match [OF kind, of muted dateNow w s1, folded res]
  have small: "gridRef ?res = gridRef s1 \<and> scoreRef ?res = scoreRef s
      \<and> (\<forall>r c. cellAt (gridRef s) r c \<noteq> None \<longrightarrow> cellAt (gridRef ?res) r c = cellAt (gridRef s) r c)"
    if lt: "length ?group < 3"
  proof -
    from lt unfold have eq: "?res = s1\<lparr>comboChainRef := 0\<rparr>"
      by (simp add: Let_def)
    have "cellAt (gridRef s1) r c = cellAt (gridRef s) r c" if "cellAt (gridRef s) r c \<noteq> None" for r c
      unfolding s1 using free that by (intro storeAt_keeps_bubbles) (simp_all add: freeAt_def)
    then show ?thesis
      by (simp add: eq score1)
  qed
  have big: "(\<forall>cell \<in> set ?group. cellAt (gridRef ?res) (fst cell) (snd cell) = None)
      \<and> scoreRef ?res = scoreRef s + 10 * int (length ?group) + 5 * snd (removeDisconnected muted w ?after)"
    if ge: "3 \<le> length ?group"
  proof -
    have grid: "gridRef ?res = gridRef (fst (removeDisconnected muted w ?after))"
      using ge unfold by (simp add: Let_def)
    have cleared: "cellAt (gridRef ?after) (fst cell) (snd cell) = None" if "cell \<in> set ?group" for cell
      using that by (simp add: afterMatch_def cellAt_clearCells)
    have gone: "\<forall>cell \<in> set ?group. cellAt (gridRef ?res) (fst cell) (snd cell) = None"
      unfolding grid using cleared by (auto intro: removeDisconnected_keeps_None)
    have "scoreRef ?after = scoreRef s + 10 * int (length ?group)"
      by (simp add: afterMatch_def score1)
    then have "scoreRef ?res = scoreRef s + 10 * int (length ?group)
        + 5 * snd (removeDisconnected muted w ?after)"
      using ge unfold removeDisconnected_count_nonneg [of muted w ?after]
      by (cases "0 < snd (removeDisconnected muted w ?after)")
        (simp_all add: Let_def removeDisconnected_fields)
    with gone show ?thesis by simp
  qed
  show ?thesis
    using floodMatch_distinct [of "gridRef s1" "b_row b1" "b_col b1" "b_color b1" w] small big
    by blast
qed

lemma resolvePlaced_comboChain:
  "comboChainRef (resolvePlaced muted dateNow b w s) =
     (if b_kind b = Bomb \<or> b_kind b = Freeze \<or> b_kind b = Aim then comboChainRef s
      else if 3 \<le> length (floodMatch (gridRef s) (b_row b) (b_col b) (b_color b) w)
           then comboChainRef s + 1 else 0)"
proof (cases "b_kind b = Bomb \<or> b_kind b = Freeze \<or> b_kind b = Aim")
  case True
  then show ?thesis
    by (auto simp: resolvePlaced_def Let_def case_prod_unfold removeDisconnected_fields)
next
  case False
  then have kind: "b_kind b \<noteq> Bomb" "b_kind b \<noteq> Freeze" "b_kind b \<noteq> Aim" by simp_all
  show ?thesis
    using False
    by (simp add: resolvePlaced_match [OF kind] Let_def removeDisconnected_fields afterMatch_def)
qed

lemma trySnapAndResolve_comboChain:
  "comboChainRef (trySnapAndResolve muted dateNow b w s) =
     (case snapLoop (snapCandidates (xyToGridGuess s (b_x b) (b_y b) w)) b w s of
        None \<Rightarrow> comboChainRef s
      | Some (s1, b1) \<Rightarrow>
          if b_kind b = Bomb \<or> b_kind b = Freeze \<or> b_kind b = Aim then comboChainRef s
          else if 3 \<le> length (floodMatch (gridRef s1) (b_row b1) (b_col b1) (b_color b1) w)
               then comboChainRef s + 1 else 0)"
proof (cases "snapLoop (snapCandidates (xyToGridGuess s (b_x b) (b_y b) w)) b w s")
  case None
  then show ?thesis by (simp add: trySnapAndResolve_None)
next
  case (Some placed)
  obtain s1 b1 where placed: "placed = (s1, b1)" by (cases placed)
  from Some [unfolded placed] obtain cand
    where st: "(s1, b1) = storeAt s b w (clampCell (gridRef s) w cand)"
    by (rule snapLoop_SomeD)
  then have "b_kind b1 = b_kind b" "comboChainRef s1 = comboChainRef s"
    by (simp_all add: prod_eq_iff storeAt_fields)
  then show ?thesis
    using Some placed trySnapAndResolve_Some [of s b w s1 b1 muted dateNow]
    by (simp add: resolvePlaced_comboChain)
qed

text \<open>
  C3, as the code has it. On a non-empty rectangular grid the combo chain grows by one on every match of 3 or more,
  whether or not a bubble drops afterwards; it is reset to zero by a normal or rainbow
  snap whose flood set has fewer than 3 cells; a discarded snap and a bomb, freeze or
  aim snap leave it as it was.
\<close>

theorem combo_chain_update:
  assumes "gridRef s \<noteq> []" and "rect (gridRef s) w"
  shows "comboChainRef (trySnapAndResolve muted dateNow b w s) =
     (case snapLoop (snapCandidates (xyToGridGuess s (b_x b) (b_y b) w)) b w s of
        None \<Rightarrow> comboChainRef s
      | Some (s1, b1) \<Rightarrow>
          if b_kind b = Bomb \<or> b_kind b = Freeze \<or> b_kind b = Aim then comboChainRef s
          else if 3 \<le> length (floodMatch (gridRef s1) (b_row b1) (b_col b1) (b_color b1) w)
               then comboChainRef s + 1 else 0)"
  by (rule trySnapAndResolve_comboChain)

subsection \<open>The bomb's breadth-first loop\<close>

text \<open>
  The loop visits the start cell at depth 0, its neighbours at depth 1 and theirs at
  depth 2, and skips what is queued at depth 3: it returns the cells within two
  neighbour steps of the bomb.
\<close>

lemma atDepth_simps:
  "atDepth d [] = []"
  "atDepth d ((r, c) # cells) = (r, c, d) # atDepth d cells"
  "atDepth d (xs @ ys) = atDepth d xs @ atDepth d ys"
  by (simp_all add: atDepth_def)

lemma set_cellsAround: "set (cellsAround g w r c) = neighborCells g w (r, c)"
  by (simp add: cellsAround_def neighborCells_def)

lemma bombLoop_step:
  "bombLoop g w seen around ((r, c, d) # queue) =
     (if d > 2 then bombLoop g w seen around queue
      else if (r, c) \<in> seen then bombLoop g w seen around queue
      else bombLoop g w (insert (r, c) seen) (around @ [(r, c)])
             (queue @ atDepth (d + 1) (cellsAround g w r c)))"
proof -
  have "map (\<lambda>(rr, cc, nb). (rr, cc, d + 1)) (neighbors g r c w)
      = atDepth (d + 1) (cellsAround g w r c)"
    by (simp add: atDepth_def cellsAround_def case_prod_unfold)
  then show ?thesis by simp
qed

lemma bombLoop_deep: "bombLoop g w seen around (atDepth 3 cells) = around"
proof (induction cells)
  case Nil
  show ?case by (simp add: atDepth_simps)
next
  case (Cons x xs)
  then show ?case by (cases x) (simp add: atDepth_simps bombLoop_step del: bombLoop.simps)
qed

lemma bombLoop_depth2:
  "set (bombLoop g w seen around (atDepth 2 xs @ atDepth 3 zs)) = set around \<union> (set xs - seen)"
proof (induction xs arbitrary: seen around zs)
  case Nil
  show ?case by (simp add: atDepth_simps bombLoop_deep)
next
  case (Cons x xs)
  obtain r c where x: "x = (r, c)" by (cases x)
  show ?case
  proof (cases "(r, c) \<in> seen")
    case True
    then have step: "bombLoop g w seen around (atDepth 2 (x # xs) @ atDepth 3 zs)
        = bombLoop g w seen around (atDepth 2 xs @ atDepth 3 zs)"
      by (simp add: x atDepth_simps bombLoop_step del: bombLoop.simps)
    show ?thesis
      unfolding step Cons.IH using True by (auto simp: x)
  next
    case False
    have step: "bombLoop g w seen around (atDepth 2 (x # xs) @ atDepth 3 zs)
        = bombLoop g w (insert (r, c) seen) (around @ [(r, c)])
            (atDepth 2 xs @ atDepth 3 (zs @ cellsAround g w r c))"
      using False by (simp add: x atDepth_simps bombLoop_step del: bombLoop.simps)
    show ?thesis
      unfolding step Cons.IH using False by (auto simp: x)
  qed
qed

lemma bombLoop_depth1:
  "set (bombLoop g w seen around (atDepth 1 xs @ atDepth 2 ys))
     = set around \<union> ((set xs \<union> set ys \<union> (\<Union>x \<in> set xs - seen. neighborCells g w x)) - seen)"
proof (induction xs arbitrary: seen around ys)
  case Nil
  show ?case
    using bombLoop_depth2 [of g w seen around ys "[]"] by (simp add: atDepth_simps)
next
  case (Cons x xs)
  obtain r c where x: "x = (r, c)" by (cases x)
  show ?case
  proof (cases "(r, c) \<in> seen")
    case True
    then have step: "bombLoop g w seen around (atDepth 1 (x # xs) @ atDepth 2 ys)
        = bombLoop g w seen around (atDepth 1 xs @ atDepth 2 ys)"
      by (simp add: x atDepth_simps bombLoop_step del: bombLoop.simps)
    show ?thesis
      unfolding step Cons.IH using True by (auto simp: x)
  next
    case False
    have step: "bombLoop g w seen around (atDepth 1 (x # xs) @ atDepth 2 ys)
        = bombLoop g w (insert (r, c) seen) (around @ [(r, c)])
            (atDepth 1 xs @ atDepth 2 (ys @ cellsAround g w r c))"
      using False by (simp add: x atDepth_simps bombLoop_step numeral_2_eq_2 del: bombLoop.simps)
    show ?thesis
      unfolding step Cons.IH set_append set_cellsAround using False by (auto simp: x)
  qed
qed

lemma bombLoop_within2:
  "set (bombLoop g w {} [] [(r, c, 0)]) = within2 g w (r, c)"
proof -
  have step: "bombLoop g w {} [] [(r, c, 0)]
      = bombLoop g w {(r, c)} [(r, c)] (atDepth 1 (cellsAround g w r c) @ atDepth 2 [])"
    by (simp add: atDepth_simps bombLoop_step del: bombLoop.simps)
  show ?thesis
    unfolding step bombLoop_depth1 set_cellsAround within2_def by auto
qed

subsection \<open>Evaluations on the example inputs\<close>

text \<open>The example grids have the shape of a grid of the program: 18 rows of 8 slots.\<close>

lemma example_grids_rows:
  "length exGridOne = MAX_ROWS" "length (exGridFloat v) = MAX_ROWS"
  "length (exGridRow v) = MAX_ROWS" "length (exGridChain v) = MAX_ROWS"
  by (simp_all add: exGridOne_def exGridFloat_def exGridRow_def exGridChain_def MAX_ROWS_def)

lemma example_grids_rect:
  "rect (exGridFloat v) 256" "rect (exGridRow v) 256" "rect (exGridChain v) 256"
  by code_simp+

lemma example_grid_one_rect: "rect exGridOne 256"
proof -
  have "computeGridSize 256 = 8"
    by code_simp
  then show ?thesis
    by (simp add: rect_def exGridOne_def list_all_iff)
qed

lemma exShot_fields: "b_kind (exShot col k c) = k" "b_color (exShot col k c) = col"
  by (simp_all add: exShot_def exFlying_def)

lemma guess_exShot:
  assumes "descentOffsetRef s = 0"
  shows "xyToGridGuess s (b_x (exShot col k c)) (b_y (exShot col k c)) w = (0, c)"
proof -
  have H: "COL_H_SPACING \<noteq> 0"
    using COL_H_SPACING_pos by simp
  have "Math_round (0 / ROW_V_SPACING) = 0"
    by (simp add: Math_round_def)
  moreover have "Math_round (of_int c * COL_H_SPACING / COL_H_SPACING) = c"
    using H by (simp add: Math_round_of_int)
  ultimately show ?thesis
    using assms by (simp add: xyToGridGuess_def exShot_def exFlying_def Let_def jsRem_def)
qed

lemma storeXY_fields:
  "b_kind (snd (storeXY s b r c x y)) = b_kind b"
  "b_color (snd (storeXY s b r c x y)) = b_color b"
  "b_row (snd (storeXY s b r c x y)) = r"
  "b_col (snd (storeXY s b r c x y)) = c"
  by (simp_all add: storeXY_def Let_def)

lemma trySnapAndResolve_at:
  assumes "xyToGridGuess s (b_x b) (b_y b) w = guess"
    and "find (freeAt (gridRef s) w) (snapCandidates guess) = Some cand"
    and "clampCell (gridRef s) w cand = (r, c)"
  shows "trySnapAndResolve muted dateNow b w s =
     resolvePlaced muted dateNow
       (snd (storeXY s b r c (fst (gridToXY s r c w)) (snd (gridToXY s r c w)))) w
       (fst (storeXY s b r c (fst (gridToXY s r c w)) (snd (gridToXY s r c w))))"
  using assms by (simp add: trySnapAndResolve_find storeAt_def)

lemma exFloat_probe:
  "exGridFloat v \<noteq> []"
  "rect (exGridFloat v) 256"
  "find (freeAt (exGridFloat v) 256) (snapCandidates (0, 0)) = Some (0, 1)"
  "find (freeAt (exGridFloat v) 256) (snapCandidates (0, 1)) = Some (0, 1)"
  "clampCell (exGridFloat v) 256 (0, 1) = (0, 1)"
  by code_simp+

lemma exRow_probe:
  "find (freeAt (exGridRow v) 256) (snapCandidates (0, 2)) = Some (0, 2)"
  "clampCell (exGridRow v) 256 (0, 2) = (0, 2)"
  by code_simp+

lemma exChain_probe:
  "find (freeAt (exGridChain v) 256) (snapCandidates (0, 1)) = Some (0, 1)"
  "clampCell (exGridChain v) 256 (0, 1) = (0, 1)"
  by code_simp+

lemma exRow_match:
  "comboChainRef (resolvePlaced False 0 (snd (storeXY (exGame (exGridRow v)) (exShot Red Normal 2) 0 2 x' y')) 256
      (fst (storeXY (exGame (exGridRow v)) (exShot Red Normal 2) 0 2 x' y'))) = 1"
  "scoreRef (resolvePlaced False 0 (snd (storeXY (exGame (exGridRow v)) (exShot Red Normal 2) 0 2 x' y')) 256
      (fst (storeXY (exGame (exGridRow v)) (exShot Red Normal 2) 0 2 x' y'))) = 30"
  "emitted (resolvePlaced False 0 (snd (storeXY (exGame (exGridRow v)) (exShot Red Normal 2) 0 2 x' y')) 256
      (fst (storeXY (exGame (exGridRow v)) (exShot Red Normal 2) 0 2 x' y'))) = [PlayPop (3 / 4)]"
  by code_simp+

lemma exChain_bomb:
  "scoreRef (resolvePlaced False 0 (snd (storeXY (exGame (exGridChain v)) (exShot Red Bomb 1) 0 1 x' y')) 256
      (fst (storeXY (exGame (exGridChain v)) (exShot Red Bomb 1) 0 1 x' y'))) = 0"
  "emitted (resolvePlaced False 0 (snd (storeXY (exGame (exGridChain v)) (exShot Red Bomb 1) 0 1 x' y')) 256
      (fst (storeXY (exGame (exGridChain v)) (exShot Red Bomb 1) 0 1 x' y'))) = [PlayPop (9 / 10), PlayCombo 1]"
  "map (map (map_option b_color)) (take 4 (gridRef (resolvePlaced False 0 (snd (storeXY (exGame (exGridChain v)) (exShot Red Bomb 1) 0 1 x' y')) 256
      (fst (storeXY (exGame (exGridChain v)) (exShot Red Bomb 1) 0 1 x' y'))))) = replicate 4 (replicate 8 None)"
  by code_simp+

lemma exFloat_small:
  "length (floodMatch (gridRef (fst (storeXY (exGame (exGridFloat v)) (exShot Red Normal 1) 0 1 x' y'))) 0 1 Red 256) = 2"
  by code_simp

lemma exGame_fields:
  "gridRef (exGame g) = g" "descentOffsetRef (exGame g) = 0" "scoreRef (exGame g) = 0"
  "comboChainRef (exGame g) = 0"
  by (simp_all add: exGame_def)

theorem snap_places_first_free_candidate_witness:
  "gridRef (exGame (exGridFloat ROW_V_SPACING)) \<noteq> []
   \<and> rect (gridRef (exGame (exGridFloat ROW_V_SPACING))) 256
   \<and> xyToGridGuess (exGame (exGridFloat ROW_V_SPACING))
        (b_x (exShot Green Normal 0)) (b_y (exShot Green Normal 0)) 256 = (0, 0)
   \<and> cellAt (exGridFloat ROW_V_SPACING) 0 0 \<noteq> None
   \<and> snapLoop (snapCandidates (0, 0)) (exShot Green Normal 0) 256
        (exGame (exGridFloat ROW_V_SPACING))
      = Some (storeAt (exGame (exGridFloat ROW_V_SPACING)) (exShot Green Normal 0) 256 (0, 1))"
proof -
  let ?s = "exGame (exGridFloat ROW_V_SPACING)"
  let ?b = "exShot Green Normal 0"
  have ne: "gridRef ?s \<noteq> []" and re: "rect (gridRef ?s) 256"
    by (simp_all add: exGame_fields exFloat_probe)
  have guess: "xyToGridGuess ?s (b_x ?b) (b_y ?b) 256 = (0, 0)"
    by (rule guess_exShot) (simp add: exGame_fields)
  have occupied: "cellAt (exGridFloat ROW_V_SPACING) 0 0 \<noteq> None"
    by (simp add: cellAt_def exGridFloat_def)
  have found: "find (freeAt (gridRef ?s) 256) (snapCandidates (0, 0)) = Some (0, 1)"
    and clamp: "clampCell (gridRef ?s) 256 (0, 1) = (0, 1)"
    by (simp_all add: exGame_fields exFloat_probe)
  note inst = snap_places_first_free_candidate [OF ne re, of 0 0 ?b False 0]
  from inst [THEN conjunct2, unfolded guess found option.case Let_def clamp]
  have "snapLoop (snapCandidates (0, 0)) ?b 256 ?s = Some (storeAt ?s ?b 256 (0, 1))"
    by blast
  with ne re guess occupied show ?thesis
    by blast
qed

theorem small_match_removes_nothing_witness:
  "gridRef (exGame (exGridFloat ROW_V_SPACING)) \<noteq> []
   \<and> rect (gridRef (exGame (exGridFloat ROW_V_SPACING))) 256
   \<and> (b_kind (exShot Red Normal 1) = Normal \<or> b_kind (exShot Red Normal 1) = Rainbow)
   \<and> snapLoop (snapCandidates (xyToGridGuess (exGame (exGridFloat ROW_V_SPACING))
          (b_x (exShot Red Normal 1)) (b_y (exShot Red Normal 1)) 256))
        (exShot Red Normal 1) 256 (exGame (exGridFloat ROW_V_SPACING))
      = Some (storeAt (exGame (exGridFloat ROW_V_SPACING)) (exShot Red Normal 1) 256 (0, 1))
   \<and> gridRef (trySnapAndResolve False 0 (exShot Red Normal 1) 256
        (exGame (exGridFloat ROW_V_SPACING)))
      = gridRef (fst (storeAt (exGame (exGridFloat ROW_V_SPACING)) (exShot Red Normal 1) 256 (0, 1)))
   \<and> scoreRef (trySnapAndResolve False 0 (exShot Red Normal 1) 256
        (exGame (exGridFloat ROW_V_SPACING))) = 0"
proof -
  let ?s = "exGame (exGridFloat ROW_V_SPACING)"
  let ?b = "exShot Red Normal 1"
  let ?placed = "storeAt ?s ?b 256 (0, 1)"
  have ne: "gridRef ?s \<noteq> []" and re: "rect (gridRef ?s) 256"
    by (simp_all add: exGame_fields exFloat_probe)
  have kind: "b_kind ?b = Normal \<or> b_kind ?b = Rainbow"
    by (simp add: exShot_fields)
  have guess: "xyToGridGuess ?s (b_x ?b) (b_y ?b) 256 = (0, 1)"
    by (rule guess_exShot) (simp add: exGame_fields)
  have loop: "snapLoop (snapCandidates (xyToGridGuess ?s (b_x ?b) (b_y ?b) 256)) ?b 256 ?s
      = Some (fst ?placed, snd ?placed)"
    by (simp add: guess snapLoop_find exGame_fields exFloat_probe)
  have small: "length (floodMatch (gridRef (fst ?placed)) (b_row (snd ?placed)) (b_col (snd ?placed))
      (b_color (snd ?placed)) 256) = 2"
    using exFloat_small [of ROW_V_SPACING]
    by (simp add: storeAt_def storeXY_fields exShot_fields)
  from small_match_removes_nothing [OF ne re loop kind, of False 0] small
  have "gridRef (trySnapAndResolve False 0 ?b 256 ?s) = gridRef (fst ?placed)"
    and "scoreRef (trySnapAndResolve False 0 ?b 256 ?s) = 0"
    by (simp_all add: exGame_fields)
  with ne re kind loop show ?thesis
    by simp
qed

lemma exFloat_freeze:
  "freezeUntil (powerRef (resolvePlaced False 0
      (snd (storeXY ((exGame (exGridFloat v))\<lparr>comboChainRef := 2\<rparr>) (exShot Red Freeze 1) 0 1 x' y')) 256
      (fst (storeXY ((exGame (exGridFloat v))\<lparr>comboChainRef := 2\<rparr>) (exShot Red Freeze 1) 0 1 x' y')))) = 5000"
  "comboChainRef (resolvePlaced False 0
      (snd (storeXY ((exGame (exGridFloat v))\<lparr>comboChainRef := 2\<rparr>) (exShot Red Freeze 1) 0 1 x' y')) 256
      (fst (storeXY ((exGame (exGridFloat v))\<lparr>comboChainRef := 2\<rparr>) (exShot Red Freeze 1) 0 1 x' y'))) = 2"
  by code_simp+

text \<open>
  The claim as stated fails twice: a red bubble that completes a row of three is
  matched with nothing left to drop (the score is 30, the only event is the pop sound)
  and the combo chain still grows; a freeze bubble is placed and takes effect, runs no
  match, and a combo chain of 2 stays 2.
\<close>

theorem combo_chain_counterexample:
  "comboChainRef (trySnapAndResolve False 0 (exShot Red Normal 2) 256
      (exGame (exGridRow ROW_V_SPACING))) = comboChainRef (exGame (exGridRow ROW_V_SPACING)) + 1
   \<and> scoreRef (trySnapAndResolve False 0 (exShot Red Normal 2) 256
      (exGame (exGridRow ROW_V_SPACING))) = 30
   \<and> emitted (trySnapAndResolve False 0 (exShot Red Normal 2) 256
      (exGame (exGridRow ROW_V_SPACING))) = [PlayPop (3 / 4)]
   \<and> comboChainRef ((exGame (exGridFloat ROW_V_SPACING))\<lparr>comboChainRef := 2\<rparr>) = 2
   \<and> freezeUntil (powerRef (trySnapAndResolve False 0 (exShot Red Freeze 1) 256
      ((exGame (exGridFloat ROW_V_SPACING))\<lparr>comboChainRef := 2\<rparr>))) = 5000
   \<and> comboChainRef (trySnapAndResolve False 0 (exShot Red Freeze 1) 256
      ((exGame (exGridFloat ROW_V_SPACING))\<lparr>comboChainRef := 2\<rparr>)) = 2"
proof -
  let ?s = "exGame (exGridRow ROW_V_SPACING)"
  let ?b = "exShot Red Normal 2"
  have "xyToGridGuess ?s (b_x ?b) (b_y ?b) 256 = (0, 2)"
    by (rule guess_exShot) (simp add: exGame_fields)
  then have a: "trySnapAndResolve False 0 ?b 256 ?s =
      resolvePlaced False 0
        (snd (storeXY ?s ?b 0 2 (fst (gridToXY ?s 0 2 256)) (snd (gridToXY ?s 0 2 256)))) 256
        (fst (storeXY ?s ?b 0 2 (fst (gridToXY ?s 0 2 256)) (snd (gridToXY ?s 0 2 256))))"
    by (rule trySnapAndResolve_at [where cand = "(0, 2)"]) (simp_all add: exGame_fields exRow_probe)
  let ?t = "(exGame (exGridFloat ROW_V_SPACING))\<lparr>comboChainRef := 2\<rparr>"
  let ?f = "exShot Red Freeze 1"
  have "xyToGridGuess ?t (b_x ?f) (b_y ?f) 256 = (0, 1)"
    by (rule guess_exShot) (simp add: exGame_fields)
  then have b: "trySnapAndResolve False 0 ?f 256 ?t =
      resolvePlaced False 0
        (snd (storeXY ?t ?f 0 1 (fst (gridToXY ?t 0 1 256)) (snd (gridToXY ?t 0 1 256)))) 256
        (fst (storeXY ?t ?f 0 1 (fst (gridToXY ?t 0 1 256)) (snd (gridToXY ?t 0 1 256))))"
    by (rule trySnapAndResolve_at [where cand = "(0, 1)"]) (simp_all add: exGame_fields exFloat_probe)
  show ?thesis
    unfolding a b by (simp add: exRow_match exFloat_freeze exGame_fields)
qed

theorem combo_chain_update_witness:
  "gridRef ((exGame (exGridFloat ROW_V_SPACING))\<lparr>comboChainRef := 2\<rparr>) \<noteq> []
   \<and> rect (gridRef ((exGame (exGridFloat ROW_V_SPACING))\<lparr>comboChainRef := 2\<rparr>)) 256
   \<and> comboChainRef ((exGame (exGridFloat ROW_V_SPACING))\<lparr>comboChainRef := 2\<rparr>) = 2
   \<and> comboChainRef (trySnapAndResolve False 0 (exShot Red Normal 1) 256
        ((exGame (exGridFloat ROW_V_SPACING))\<lparr>comboChainRef := 2\<rparr>)) = 0"
proof -
  let ?t = "(exGame (exGridFloat ROW_V_SPACING))\<lparr>comboChainRef := 2\<rparr>"
  let ?b = "exShot Red Normal 1"
  let ?placed = "storeAt ?t ?b 256 (0, 1)"
  have ne: "gridRef ?t \<noteq> []" and re: "rect (gridRef ?t) 256"
    by (simp_all add: exGame_fields exFloat_probe)
  have guess: "xyToGridGuess ?t (b_x ?b) (b_y ?b) 256 = (0, 1)"
    by (rule guess_exShot) (simp add: exGame_fields)
  have loop: "snapLoop (snapCandidates (xyToGridGuess ?t (b_x ?b) (b_y ?b) 256)) ?b 256 ?t
      = Some (fst ?placed, snd ?placed)"
    by (simp add: guess snapLoop_find exGame_fields exFloat_probe)
  have grid: "gridRef (fst (storeXY ?t ?b 0 1 x y))
      = gridRef (fst (storeXY (exGame (exGridFloat ROW_V_SPACING)) ?b 0 1 x y))" for x y
    by (simp add: storeXY_def Let_def)
  have small: "length (floodMatch (gridRef (fst ?placed)) (b_row (snd ?placed)) (b_col (snd ?placed))
      (b_color (snd ?placed)) 256) = 2"
    using exFloat_small [of ROW_V_SPACING]
    by (simp add: storeAt_def storeXY_fields exShot_fields grid)
  from combo_chain_update [OF ne re, of False 0 ?b] loop small
  have "comboChainRef (trySnapAndResolve False 0 ?b 256 ?t) = 0"
    by (simp add: exShot_fields case_prod_unfold)
  with ne re show ?thesis
    by simp
qed

lemma exChain_bomb_cells:
  "cellAt (gridRef (resolvePlaced False 0 (snd (storeXY (exGame (exGridChain v)) (exShot Red Bomb 1) 0 1 x' y')) 256
      (fst (storeXY (exGame (exGridChain v)) (exShot Red Bomb 1) 0 1 x' y')))) 3 0 = None"
  "(3, 0) \<notin> set (bombLoop (gridRef (fst (storeXY (exGame (exGridChain v)) (exShot Red Bomb 1) 0 1 x' y')))
      256 {} [] [(0, 1, 0)])"
  "comboChainRef (resolvePlaced False 0 (snd (storeXY (exGame (exGridChain v)) (exShot Red Bomb 1) 0 1 x' y')) 256
      (fst (storeXY (exGame (exGridChain v)) (exShot Red Bomb 1) 0 1 x' y'))) = 0"
  by code_simp+

text \<open>
  The bomb branch never changes the score or the combo chain and never raises the combo
  event, whatever \<open>removeDisconnected\<close> returns.
\<close>

lemma bomb_branch_keeps_score:
  assumes "b_kind b = Bomb"
  shows "scoreRef (resolvePlaced muted dateNow b w s) = scoreRef s"
    and "comboChainRef (resolvePlaced muted dateNow b w s) = comboChainRef s"
    and "ComboAchieved \<in> set (emitted (resolvePlaced muted dateNow b w s))
      \<longleftrightarrow> ComboAchieved \<in> set (emitted s)"
  using assms
  by (auto simp: resolvePlaced_def removeDisconnected_def Let_def case_prod_unfold)

text \<open>
  C2 fails on the code. A bomb lands at the top of column 1 beside a chain in column 0
  (rows 0 to 3). The yellow bubble at row 3 is outside the blast, loses its support and
  is dropped by \<open>removeDisconnected\<close>, whose count 1 only reaches the combo sound: the
  score stays 0 and no combo event is emitted.
\<close>

theorem bomb_drop_not_scored:
  "cellAt (gridRef (exGame (exGridChain ROW_V_SPACING))) 3 0
      = Some (exBubble ROW_V_SPACING 3 0 Yellow Normal)
   \<and> (3, 0) \<notin> set (bombLoop
        (gridRef (fst (storeAt (exGame (exGridChain ROW_V_SPACING)) (exShot Red Bomb 1) 256 (0, 1))))
        256 {} [] [(0, 1, 0)])
   \<and> cellAt (gridRef (trySnapAndResolve False 0 (exShot Red Bomb 1) 256
        (exGame (exGridChain ROW_V_SPACING)))) 3 0 = None
   \<and> emitted (trySnapAndResolve False 0 (exShot Red Bomb 1) 256
        (exGame (exGridChain ROW_V_SPACING))) = [PlayPop (9 / 10), PlayCombo 1]
   \<and> scoreRef (trySnapAndResolve False 0 (exShot Red Bomb 1) 256
        (exGame (exGridChain ROW_V_SPACING))) = 0"
proof -
  let ?s = "exGame (exGridChain ROW_V_SPACING)"
  let ?b = "exShot Red Bomb 1"
  have "xyToGridGuess ?s (b_x ?b) (b_y ?b) 256 = (0, 1)"
    by (rule guess_exShot) (simp add: exGame_fields)
  then have a: "trySnapAndResolve False 0 ?b 256 ?s =
      resolvePlaced False 0
        (snd (storeXY ?s ?b 0 1 (fst (gridToXY ?s 0 1 256)) (snd (gridToXY ?s 0 1 256)))) 256
        (fst (storeXY ?s ?b 0 1 (fst (gridToXY ?s 0 1 256)) (snd (gridToXY ?s 0 1 256))))"
    by (rule trySnapAndResolve_at [where cand = "(0, 1)"]) (simp_all add: exGame_fields exChain_probe)
  have before: "cellAt (gridRef ?s) 3 0 = Some (exBubble ROW_V_SPACING 3 0 Yellow Normal)"
    by (simp add: exGame_fields cellAt_def exGridChain_def)
  have outside: "(3, 0) \<notin> set (bombLoop (gridRef (fst (storeAt ?s ?b 256 (0, 1)))) 256 {} []
      [(0, 1, 0)])"
    unfolding storeAt_def fst_conv snd_conv by (rule exChain_bomb_cells(2))
  have dropped: "cellAt (gridRef (trySnapAndResolve False 0 ?b 256 ?s)) 3 0 = None"
    unfolding a by (rule exChain_bomb_cells(1))
  have sound: "emitted (trySnapAndResolve False 0 ?b 256 ?s) = [PlayPop (9 / 10), PlayCombo 1]"
    unfolding a by (rule exChain_bomb(2))
  have score: "scoreRef (trySnapAndResolve False 0 ?b 256 ?s) = 0"
    unfolding a by (rule exChain_bomb(1))
  from before outside dropped sound score show ?thesis
    by blast
qed

end
